theory Spec2Isabelle
  imports Complex_Main
begin

section \<open>Common ground\<close>

text \<open>
  The C++ sources work on \<^verbatim>\<open>float\<close> values. They are modelled as \<^typ>\<open>real\<close>:
  the model follows the arithmetic the code writes down and leaves rounding, infinities
  and NaN out. Counters of type \<^verbatim>\<open>uint64_t\<close> and \<^verbatim>\<open>size_t\<close> count elements of
  containers held in memory and are modelled as \<^typ>\<open>nat\<close>; the one place where the
  source relies on unsigned wrap-around (the map name derived from the map file path) writes
  the \<open>mod 2 ^ 64\<close> out.
\<close>

type_synonym Point = "real \<times> real \<times> real"

text \<open>
  Everything that ends a function other than by returning: a failed glog \<^verbatim>\<open>CHECK\<close>
  (process-fatal), a \<^verbatim>\<open>std::out_of_range\<close> thrown by \<^verbatim>\<open>vector::at\<close> or an unchecked
  access past the end, an integer division or remainder by zero (undefined behaviour in
  C++, a trap on the usual targets), and the use of a null pointer.
\<close>

datatype error = CheckFailed | OutOfRange | DivisionByZero | NullDereference

text \<open>A \<^verbatim>\<open>for\<close> loop over a sequence whose body may fail: the first failure ends the loop.\<close>

fun foreach :: "'a list \<Rightarrow> ('a \<Rightarrow> 's \<Rightarrow> error + 's) \<Rightarrow> 's \<Rightarrow> error + 's" where
  "foreach [] body s = Inr s"
| "foreach (x # xs) body s =
     (case body x s of Inl e \<Rightarrow> Inl e | Inr s' \<Rightarrow> foreach xs body s')"

section \<open>The naive integrator (naive\_integrator.cpp)\<close>

subsection \<open>Segmenting the point cloud by id\<close>

text \<open>
  \<^verbatim>\<open>std::find(id_v.begin(), id_v.end(), x) - id_v.begin()\<close>: the position of the first
  element equal to \<open>x\<close>, or the length of the vector when there is none.
\<close>

fun find_pos :: "'a list \<Rightarrow> 'a \<Rightarrow> nat" where
  "find_pos [] x = 0"
| "find_pos (y # ys) x = (if y = x then 0 else Suc (find_pos ys x))"

text \<open>The three local vectors \<^verbatim>\<open>id_v\<close>, \<^verbatim>\<open>cloud_v\<close> and \<^verbatim>\<open>color_v\<close>.\<close>

record ('p, 'c) partial_clouds =
  id_v :: "int list"
  cloud_v :: "'p list list"
  color_v :: "'c list list"

text \<open>
  The body of the first loop at index \<open>i\<close>. \<^verbatim>\<open>index\<close> is computed before a new
  partial cloud is allocated; \<^verbatim>\<open>at(index)\<close> throws when \<open>index\<close> is not a position of
  the vector.
\<close>

definition segment_body ::
  "int list \<Rightarrow> 'p list \<Rightarrow> 'c list \<Rightarrow> nat \<Rightarrow> ('p, 'c) partial_clouds
    \<Rightarrow> error + ('p, 'c) partial_clouds" where
  "segment_body ids pointcloud colors i s =
     (let index = find_pos (id_v s) (ids ! i);
          s1 = (if index = length (id_v s)
                then s\<lparr>id_v := id_v s @ [ids ! i],
                       cloud_v := cloud_v s @ [[]],
                       color_v := color_v s @ [[]]\<rparr>
                else s)
      in if \<not> index < length (cloud_v s1) then Inl OutOfRange
         else let s2 = s1\<lparr>cloud_v := (cloud_v s1)[index := cloud_v s1 ! index @ [pointcloud ! i]]\<rparr>
              in if \<not> index < length (color_v s2) then Inl OutOfRange
                 else Inr (s2\<lparr>color_v := (color_v s2)[index := color_v s2 ! index @ [colors ! i]]\<rparr>))"

definition segment_pointcloud ::
  "int list \<Rightarrow> 'p list \<Rightarrow> 'c list \<Rightarrow> error + ('p, 'c) partial_clouds" where
  "segment_pointcloud ids pointcloud colors =
     foreach [0..<length ids] (segment_body ids pointcloud colors)
       \<lparr>id_v = [], cloud_v = [], color_v = []\<rparr>"

subsection \<open>Integrating each partial cloud\<close>

text \<open>
  The submap collection maps an id to its submap. The voxblox integrator is an external
  capability: \<open>integratePointCloud\<close> says what fusing a pose, a cloud and its colours
  does to the TSDF layer of the submap the integrator points at. The member
  \<^verbatim>\<open>tsdf_integrator_\<close> is either not constructed yet or bound to one submap's layer; it is
  modelled by the id of that submap. \<^verbatim>\<open>LOG(WARNING)\<close> appends to the list of warnings.
\<close>

record 'm integrator_state =
  submaps :: "int \<rightharpoonup> 'm"
  tsdf_integrator :: "int option"
  warnings :: "int list"

definition submapIdExists :: "(int \<rightharpoonup> 'm) \<Rightarrow> int \<Rightarrow> bool" where
  "submapIdExists sm k = (sm k \<noteq> None)"

text \<open>
  The body of the second loop at index \<open>i\<close>. Constructing the integrator
  (\<^verbatim>\<open>TsdfIntegratorFactory::create\<close>) and rebinding it (\<^verbatim>\<open>setLayer\<close>) both leave it
  pointing at the layer of submap \<^verbatim>\<open>id_v[i]\<close>; the call then updates that layer in place.
\<close>

definition integrate_body ::
  "('t \<Rightarrow> 'p list \<Rightarrow> 'c list \<Rightarrow> 'm \<Rightarrow> 'm) \<Rightarrow> 't \<Rightarrow> ('p, 'c) partial_clouds \<Rightarrow> nat
    \<Rightarrow> 'm integrator_state \<Rightarrow> error + 'm integrator_state" where
  "integrate_body integratePointCloud T_M_C pc i st =
     (let k = id_v pc ! i
      in if \<not> submapIdExists (submaps st) k
         then Inr (st\<lparr>warnings := warnings st @ [k]\<rparr>)
         else if \<not> (i < length (cloud_v pc) \<and> i < length (color_v pc)) then Inl OutOfRange
         else (case submaps st k of
                 None \<Rightarrow> Inl OutOfRange
               | Some m \<Rightarrow>
                   Inr (st\<lparr>tsdf_integrator := Some k,
                           submaps := (submaps st)
                             (k \<mapsto> integratePointCloud T_M_C (cloud_v pc ! i) (color_v pc ! i) m)\<rparr>)))"

text \<open>
  \<^verbatim>\<open>NaiveIntegrator::processPointcloud\<close>. The collection pointer is taken to be
  non-null (\<^verbatim>\<open>CHECK_NOTNULL\<close>); the two \<^verbatim>\<open>CHECK_EQ\<close> on the sizes come first.
\<close>

definition processPointcloud ::
  "('t \<Rightarrow> 'p list \<Rightarrow> 'c list \<Rightarrow> 'm \<Rightarrow> 'm) \<Rightarrow> 'm integrator_state \<Rightarrow> 't
    \<Rightarrow> 'p list \<Rightarrow> 'c list \<Rightarrow> int list \<Rightarrow> error + 'm integrator_state" where
  "processPointcloud integratePointCloud st T_M_C pointcloud colors ids =
     (if length ids \<noteq> length pointcloud then Inl CheckFailed
      else if length ids \<noteq> length colors then Inl CheckFailed
      else case segment_pointcloud ids pointcloud colors of
             Inl e \<Rightarrow> Inl e
           | Inr pc \<Rightarrow>
               foreach [0..<length (id_v pc)] (integrate_body integratePointCloud T_M_C pc) st)"

section \<open>The map evaluator (map\_evaluator.cpp)\<close>

subsection \<open>Data\<close>

text \<open>
  A TSDF voxel holds a distance, a weight and a colour. The colour type belongs to voxblox
  and is a parameter \<open>'c\<close>; its constructor \<^verbatim>\<open>Color(r, g, b)\<close> is the capability
  \<open>Color\<close> below. A submap holds the parameters of its TSDF layer, its truncation
  distance, the list of allocated block indices (\<^verbatim>\<open>getAllAllocatedBlocks\<close>) and the
  blocks themselves (\<^verbatim>\<open>getBlockByIndex\<close>, fatal on an index that is not allocated).
  \<open>mesh_updates\<close> counts the calls of \<^verbatim>\<open>updateMesh\<close>. In the evaluator the collection
  is the list of its submaps in iteration order.
\<close>

type_synonym BlockIndex = "int \<times> int \<times> int"

record 'c TsdfVoxel =
  distance :: real
  weight :: real
  color :: 'c

record 'c Submap =
  voxels_per_side :: nat
  voxel_size :: real
  truncation_distance :: real
  allocated_blocks :: "BlockIndex list"
  block :: "BlockIndex \<rightharpoonup> 'c TsdfVoxel list"
  mesh_updates :: nat

record EvaluationRequest =
  verbosity :: int
  map_file :: string
  ground_truth_pointcloud_file :: string
  maximum_distance :: real
  evaluate :: bool
  visualize :: bool
  compute_coloring :: bool

text \<open>
  What the evaluator uses and the sources do not contain: the bounds policy
  (\<^verbatim>\<open>FlatBounds::pointIsValid\<close>), the planning interface's distance lookup over the
  loaded collection, the k-nearest-neighbour search of the kd-tree built over the ground
  truth (pairs of point index and squared distance, nearest first), the trilinear
  interpolator of a submap's layer, the voxel centre of a block, the colour constructor, and
  the file system (loading a PLY file, loading a map, opening the output file).
\<close>

record 'c capabilities =
  pointIsValid :: "Point \<Rightarrow> bool"
  getDistance :: "'c Submap list \<Rightarrow> Point \<Rightarrow> real option"
  knnSearch :: "Point list \<Rightarrow> Point \<Rightarrow> (nat \<times> real) list"
  interpolate :: "'c Submap \<Rightarrow> Point \<Rightarrow> real option"
  computeCoordinatesFromLinearIndex :: "'c Submap \<Rightarrow> BlockIndex \<Rightarrow> nat \<Rightarrow> Point"
  Color :: "real \<Rightarrow> real \<Rightarrow> real \<Rightarrow> 'c"
  loadPLYFile :: "string \<Rightarrow> Point list option"
  loadFromFile :: "string \<Rightarrow> 'c Submap list option"
  open_output :: "string \<Rightarrow> bool"

subsection \<open>Request validation\<close>

text \<open>
  Modelled from the spec: \<^verbatim>\<open>checkParamGT\<close> and \<^verbatim>\<open>isValid\<close> belong to the configuration
  base class, which is not among the sources. The spec: the request's invariant is
  \<open>maximum_distance > 0\<close>, checked before use, and validation fails if
  \<open>maximum_distance \<le> 0\<close>.
\<close>

definition checkParamGT :: "real \<Rightarrow> real \<Rightarrow> bool" where
  "checkParamGT param val = (val < param)"

definition checkParams :: "EvaluationRequest \<Rightarrow> bool" where
  "checkParams request = checkParamGT (maximum_distance request) 0"

definition isValid :: "EvaluationRequest \<Rightarrow> bool" where
  "isValid request = checkParams request"

subsection \<open>Reconstruction error\<close>

text \<open>
  The locals of \<^verbatim>\<open>computeReconstructionError\<close> that the loop changes; \<open>bar\<close> is what
  the progress bar was asked to display, in order.
\<close>

record error_pass =
  unknown_points :: nat
  truncated_points :: nat
  abserror :: "real list"
  count :: nat
  bar :: "real list"

text \<open>
  The loop body for one ground-truth point. A point outside the bounds leaves through
  \<^verbatim>\<open>continue\<close> before anything is counted. The progress test \<^verbatim>\<open>count % interval\<close>
  is an unsigned remainder: with \<open>interval = 0\<close> it has no value.
\<close>

definition error_body ::
  "(Point \<Rightarrow> bool) \<Rightarrow> (Point \<Rightarrow> real option) \<Rightarrow> real \<Rightarrow> nat \<Rightarrow> nat \<Rightarrow> Point
    \<Rightarrow> error_pass \<Rightarrow> error + error_pass" where
  "error_body valid get_dist max_dist n_total interval point s =
     (if \<not> valid point then Inr s
      else
        let s1 = (case get_dist point of
                    Some d \<Rightarrow>
                      (if \<bar>d\<bar> > max_dist
                       then s\<lparr>truncated_points := truncated_points s + 1,
                              abserror := abserror s @ [\<bar>max_dist\<bar>]\<rparr>
                       else s\<lparr>abserror := abserror s @ [\<bar>d\<bar>]\<rparr>)
                  | None \<Rightarrow> s\<lparr>unknown_points := unknown_points s + 1\<rparr>)
        in if interval = 0 then Inl DivisionByZero
           else
             let s2 = (if count s1 mod interval = 0
                       then s1\<lparr>bar := bar s1 @ [real (count s1) / real n_total]\<rparr>
                       else s1)
             in Inr (s2\<lparr>count := count s2 + 1\<rparr>))"

text \<open>The row written to the output file, together with the sample vector.\<close>

record error_report =
  mean :: real
  stddev :: real
  rmse :: real
  total_points :: nat
  unknown :: nat
  truncated :: nat
  samples :: "real list"
  displayed :: "real list"

text \<open>
  The summary after the loop. \<^verbatim>\<open>mean\<close> and \<^verbatim>\<open>rmse\<close> are accumulated in one pass and
  normalised when there is a sample; \<^verbatim>\<open>stddev\<close> is accumulated in a second pass and
  normalised when there are more than two samples.
\<close>

definition summary :: "real list \<Rightarrow> real \<times> real \<times> real" where
  "summary abserr =
     (let mean0 = foldl (\<lambda>m v. m + v) 0 abserr;
          rmse0 = foldl (\<lambda>r v. r + v ^ 2) 0 abserr;
          mean1 = (if abserr \<noteq> [] then mean0 / real (length abserr) else mean0);
          rmse1 = (if abserr \<noteq> [] then sqrt (rmse0 / real (length abserr)) else rmse0);
          stddev0 = foldl (\<lambda>sd v. sd + (v - mean1) ^ 2) 0 abserr;
          stddev1 = (if length abserr > 2
                     then sqrt (stddev0 / real (length abserr - 1)) else stddev0)
      in (mean1, stddev1, rmse1))"

definition computeReconstructionError ::
  "(Point \<Rightarrow> bool) \<Rightarrow> (Point \<Rightarrow> real option) \<Rightarrow> real \<Rightarrow> Point list \<Rightarrow> error + error_report" where
  "computeReconstructionError valid get_dist max_dist gt =
     (let n_total = length gt;
          interval = n_total div 100
      in case foreach gt (error_body valid get_dist max_dist n_total interval)
                \<lparr>unknown_points = 0, truncated_points = 0, abserror = [], count = 0, bar = []\<rparr> of
           Inl e \<Rightarrow> Inl e
         | Inr s \<Rightarrow>
             (case summary (abserror s) of
                (m, sd, r) \<Rightarrow>
                  Inr \<lparr>mean = m, stddev = sd, rmse = r, total_points = n_total,
                       unknown = unknown_points s, truncated = truncated_points s,
                       samples = abserror s, displayed = bar s @ [100]\<rparr>))"

subsection \<open>Error colouring\<close>

definition max_number_of_neighbors :: nat where
  "max_number_of_neighbors = 100"

text \<open>
  The loop over the search results: the nearest result is always taken, a further one only
  within one voxel size; \<open>results\<close> pairs \<^verbatim>\<open>ret_index[i]\<close> with \<^verbatim>\<open>out_dist_sqr[i]\<close>.
  The state is \<^verbatim>\<open>total_error\<close> and \<^verbatim>\<open>counted_voxels\<close>.
\<close>

definition neighbor_body ::
  "(Point \<Rightarrow> real option) \<Rightarrow> Point list \<Rightarrow> (nat \<times> real) list \<Rightarrow> real \<Rightarrow> nat
    \<Rightarrow> real \<times> nat \<Rightarrow> error + real \<times> nat" where
  "neighbor_body interp points results voxel_size_sqr i acc =
     (if i \<noteq> 0 \<and> snd (results ! i) > voxel_size_sqr then Inr acc
      else if \<not> fst (results ! i) < length points then Inl OutOfRange
      else (case interp (points ! fst (results ! i)) of
              Some d \<Rightarrow> Inr (fst acc + \<bar>d\<bar>, snd acc + 1)
            | None \<Rightarrow> Inr acc))"

text \<open>The colour of a voxel with at least one counted neighbour.\<close>

definition error_color :: "(real \<Rightarrow> real \<Rightarrow> real \<Rightarrow> 'c) \<Rightarrow> real \<Rightarrow> nat \<Rightarrow> real \<Rightarrow> 'c" where
  "error_color mk total_error counted_voxels max_dist =
     (let frac = min (total_error / real counted_voxels) max_dist / max_dist;
          r = min ((frac - 0.5) * 2 + 1) 1 * 255;
          g0 = (1 - frac) * 2 * 255;
          g = (if frac \<le> 0.5 then 190 + 130 * frac else g0)
      in mk r g 0)"

text \<open>
  The body of the innermost loop for one voxel of block \<open>block_index\<close> of submap
  \<open>sm\<close>: the new value of the voxel.
\<close>

definition color_voxel ::
  "'c capabilities \<Rightarrow> EvaluationRequest \<Rightarrow> Point list \<Rightarrow> 'c Submap \<Rightarrow> BlockIndex \<Rightarrow> nat
    \<Rightarrow> 'c TsdfVoxel \<Rightarrow> error + 'c TsdfVoxel" where
  "color_voxel caps request points sm block_index linear_index voxel =
     (if distance voxel > truncation_distance sm \<or> distance voxel < - truncation_distance sm
      then Inr voxel
      else
        let center = computeCoordinatesFromLinearIndex caps sm block_index linear_index
        in if \<not> pointIsValid caps center
           then Inr (voxel\<lparr>color := Color caps 128 128 128\<rparr>)
           else
             let results = take max_number_of_neighbors (knnSearch caps points center);
                 num_results = length results
             in if num_results = 0
                then Inr (voxel\<lparr>color := Color caps 128 128 128\<rparr>)
                else
                  (case foreach [0..<num_results]
                          (neighbor_body (interpolate caps sm) points results
                             (voxel_size sm * voxel_size sm)) (0, 0) of
                     Inl e \<Rightarrow> Inl e
                   | Inr (total_error, counted_voxels) \<Rightarrow>
                       if counted_voxels = 0
                       then Inr (voxel\<lparr>color := Color caps 128 128 128\<rparr>)
                       else Inr (voxel\<lparr>color := error_color (Color caps) total_error
                                   counted_voxels (maximum_distance request)\<rparr>)))"

text \<open>
  The loop over the linear indices of one block. The state is the submap, which the loop
  changes in place through the voxel reference.
\<close>

definition voxel_body ::
  "'c capabilities \<Rightarrow> EvaluationRequest \<Rightarrow> Point list \<Rightarrow> BlockIndex \<Rightarrow> nat
    \<Rightarrow> 'c Submap \<Rightarrow> error + 'c Submap" where
  "voxel_body caps request points block_index linear_index sm =
     (case block sm block_index of
        None \<Rightarrow> Inl CheckFailed
      | Some vs \<Rightarrow>
          if \<not> linear_index < length vs then Inl OutOfRange
          else (case color_voxel caps request points sm block_index linear_index
                       (vs ! linear_index) of
                  Inl e \<Rightarrow> Inl e
                | Inr v \<Rightarrow> Inr (sm\<lparr>block := (block sm)(block_index \<mapsto> vs[linear_index := v])\<rparr>)))"

text \<open>
  The loop over the allocated blocks of one submap; the state also carries the progress
  counter and what the progress bar displayed.
\<close>

definition block_body ::
  "'c capabilities \<Rightarrow> EvaluationRequest \<Rightarrow> Point list \<Rightarrow> real \<Rightarrow> BlockIndex
    \<Rightarrow> 'c Submap \<times> real \<times> real list \<Rightarrow> error + 'c Submap \<times> real \<times> real list" where
  "block_body caps request points max_counter block_index st =
     (case st of (sm, counter, shown) \<Rightarrow>
        (case block sm block_index of
           None \<Rightarrow> Inl CheckFailed
         | Some vs \<Rightarrow>
             (case foreach [0..<voxels_per_side sm ^ 3]
                     (voxel_body caps request points block_index) sm of
                Inl e \<Rightarrow> Inl e
              | Inr sm' \<Rightarrow>
                  Inr (sm', counter + 1, shown @ [(counter + 1) / max_counter]))))"

definition color_submap ::
  "'c capabilities \<Rightarrow> EvaluationRequest \<Rightarrow> Point list \<Rightarrow> real
    \<Rightarrow> 'c Submap \<times> real \<times> real list \<Rightarrow> error + 'c Submap \<times> real \<times> real list" where
  "color_submap caps request points max_counter st =
     (case foreach (allocated_blocks (fst st))
             (block_body caps request points max_counter) st of
        Inl e \<Rightarrow> Inl e
      | Inr (sm', counter, shown) \<Rightarrow>
          Inr (sm'\<lparr>mesh_updates := mesh_updates sm' + 1\<rparr>, counter, shown))"

text \<open>The loop over the submaps of the collection, each changed in place.\<close>

fun color_submaps ::
  "'c capabilities \<Rightarrow> EvaluationRequest \<Rightarrow> Point list \<Rightarrow> real
    \<Rightarrow> 'c Submap list \<Rightarrow> real \<times> real list \<Rightarrow> error + 'c Submap list \<times> real \<times> real list" where
  "color_submaps caps request points max_counter [] pr = Inr ([], pr)"
| "color_submaps caps request points max_counter (sm # sms) pr =
     (case color_submap caps request points max_counter (sm, pr) of
        Inl e \<Rightarrow> Inl e
      | Inr (sm', pr') \<Rightarrow>
          (case color_submaps caps request points max_counter sms pr' of
             Inl e \<Rightarrow> Inl e
           | Inr (sms', pr'') \<Rightarrow> Inr (sm' # sms', pr'')))"

text \<open>
  \<^verbatim>\<open>visualizeReconstructionError\<close> up to the point where the coloured collection is
  saved: the new collection and what the progress bar displayed.
\<close>

definition visualizeReconstructionError ::
  "'c capabilities \<Rightarrow> EvaluationRequest \<Rightarrow> Point list \<Rightarrow> 'c Submap list
    \<Rightarrow> error + 'c Submap list \<times> real list" where
  "visualizeReconstructionError caps request gt sms =
     (let max_counter = foldl (\<lambda>m sm. m + real (length (allocated_blocks sm))) 0 sms
      in case color_submaps caps request gt max_counter sms (0, []) of
           Inl e \<Rightarrow> Inl e
         | Inr (sms', counter, shown) \<Rightarrow> Inr (sms', shown))"

subsection \<open>The evaluation run\<close>

text \<open>
  What a run does to the outside world, in order: file loads, the output file being opened,
  written and closed, the coloured map being saved, and the mesh being published.
\<close>

datatype 'c io_event =
    LoadPLY string
  | LoadMap string
  | OpenOutput string
  | WriteOutput error_report
  | CloseOutput
  | SaveMap string "'c Submap list"
  | Publish "'c Submap list"

text \<open>
  The members of \<^verbatim>\<open>MapEvaluator\<close> that outlive a call of \<^verbatim>\<open>evaluate\<close>, and the log of
  the I/O done so far. The planning interface is constructed together with the collection it
  reads, so \<open>getDistance\<close> is applied to the loaded collection.
\<close>

record 'c evaluator =
  gt_ptcloud :: "Point list option"
  loaded_submaps :: "'c Submap list option"
  target_directory :: string
  target_map_name :: string
  io_log :: "'c io_event list"

text \<open>
  \<^verbatim>\<open>std::string::find_last_of\<close> and \<^verbatim>\<open>substr\<close> on 64-bit \<^verbatim>\<open>size_t\<close>:
  \<open>npos\<close> when the character does not occur; \<^verbatim>\<open>substr\<close> throws when the start
  lies behind the end and otherwise stops at the end of the string.
\<close>

definition npos :: nat where
  "npos = 2 ^ 64 - 1"

definition find_last_of :: "string \<Rightarrow> char \<Rightarrow> nat" where
  "find_last_of str c =
     (case filter (\<lambda>i. str ! i = c) (rev [0..<length str]) of
        [] \<Rightarrow> npos
      | i # _ \<Rightarrow> i)"

definition substr :: "string \<Rightarrow> nat \<Rightarrow> nat \<Rightarrow> error + string" where
  "substr str pos n = (if pos > length str then Inl OutOfRange else Inr (take n (drop pos str)))"

text \<open>
  Loading the ground truth (the first block of \<^verbatim>\<open>evaluate\<close>). The result says whether
  the run goes on; \<open>False\<close> is the early \<^verbatim>\<open>return false\<close>.
\<close>

definition load_ground_truth ::
  "'c capabilities \<Rightarrow> EvaluationRequest \<Rightarrow> 'c evaluator \<Rightarrow> bool \<times> 'c evaluator" where
  "load_ground_truth caps request st =
     (if evaluate request \<or> compute_coloring request
      then
        (case (if ground_truth_pointcloud_file request \<noteq> []
               then
                 (let st1 = st\<lparr>io_log := io_log st @
                                 [LoadPLY (ground_truth_pointcloud_file request)]\<rparr>
                  in case loadPLYFile caps (ground_truth_pointcloud_file request) of
                       None \<Rightarrow> Inl (st1\<lparr>gt_ptcloud := None\<rparr>)
                     | Some cloud \<Rightarrow> Inr (st1\<lparr>gt_ptcloud := Some cloud\<rparr>))
               else Inr st) of
           Inl st' \<Rightarrow> (False, st')
         | Inr st' \<Rightarrow> (if gt_ptcloud st' = None then (False, st') else (True, st')))
      else (True, st))"

text \<open>Loading the map and deriving the output directory and name from its path.\<close>

definition load_map ::
  "'c capabilities \<Rightarrow> EvaluationRequest \<Rightarrow> 'c evaluator \<Rightarrow> error + bool \<times> 'c evaluator" where
  "load_map caps request st =
     (if visualize request \<or> evaluate request \<or> compute_coloring request
      then
        (case (if map_file request \<noteq> []
               then
                 (let st1 = st\<lparr>io_log := io_log st @ [LoadMap (map_file request)]\<rparr>
                  in case loadFromFile caps (map_file request) of
                       None \<Rightarrow> Inr (Inl (st1\<lparr>loaded_submaps := None\<rparr>))
                     | Some sms \<Rightarrow>
                         (let separator = find_last_of (map_file request) CHR ''/''
                          in case substr (map_file request) 0 separator of
                               Inl e \<Rightarrow> Inl e
                             | Inr dir \<Rightarrow>
                                 (case substr (map_file request) ((separator + 1) mod 2 ^ 64)
                                         (nat ((int (length (map_file request)) - int separator - 8)
                                                mod 2 ^ 64)) of
                                    Inl e \<Rightarrow> Inl e
                                  | Inr name \<Rightarrow>
                                      Inr (Inr (st1\<lparr>loaded_submaps := Some sms,
                                                    target_directory := dir,
                                                    target_map_name := name\<rparr>)))))
               else Inr (Inr st)) of
           Inl e \<Rightarrow> Inl e
         | Inr (Inl st') \<Rightarrow> Inr (False, st')
         | Inr (Inr st') \<Rightarrow>
             (if loaded_submaps st' = None then Inr (False, st') else Inr (True, st')))
      else Inr (True, st))"

text \<open>
  The three stages after loading. Each reads the members through their pointers; the
  stages before them have returned when one of these is null.
\<close>

definition run_evaluate ::
  "'c capabilities \<Rightarrow> EvaluationRequest \<Rightarrow> 'c evaluator \<Rightarrow> error + bool \<times> 'c evaluator" where
  "run_evaluate caps request st =
     (if evaluate request
      then
        (let out_file_name = target_directory st @ ''/'' @ target_map_name st @
                               ''_evaluation_data.csv'';
             st1 = st\<lparr>io_log := io_log st @ [OpenOutput out_file_name]\<rparr>
         in if \<not> open_output caps out_file_name then Inr (False, st1)
            else (case (gt_ptcloud st1, loaded_submaps st1) of
                    (Some gt, Some sms) \<Rightarrow>
                      (case computeReconstructionError (pointIsValid caps)
                              (getDistance caps sms) (maximum_distance request) gt of
                         Inl e \<Rightarrow> Inl e
                       | Inr row \<Rightarrow>
                           Inr (True, st1\<lparr>io_log := io_log st1 @ [WriteOutput row, CloseOutput]\<rparr>))
                  | _ \<Rightarrow> Inl NullDereference))
      else Inr (True, st))"

definition run_coloring ::
  "'c capabilities \<Rightarrow> EvaluationRequest \<Rightarrow> 'c evaluator \<Rightarrow> error + 'c evaluator" where
  "run_coloring caps request st =
     (if compute_coloring request
      then
        (case (gt_ptcloud st, loaded_submaps st) of
           (Some gt, Some sms) \<Rightarrow>
             (case visualizeReconstructionError caps request gt sms of
                Inl e \<Rightarrow> Inl e
              | Inr (sms', shown) \<Rightarrow>
                  Inr (st\<lparr>loaded_submaps := Some sms',
                          io_log := io_log st @
                            [SaveMap (target_directory st @ ''/'' @ target_map_name st @
                                        ''_evaluated.panmap'') sms']\<rparr>))
         | _ \<Rightarrow> Inl NullDereference)
      else Inr st)"

definition run_visualize ::
  "EvaluationRequest \<Rightarrow> 'c evaluator \<Rightarrow> error + 'c evaluator" where
  "run_visualize request st =
     (if visualize request
      then (case loaded_submaps st of
              Some sms \<Rightarrow> Inr (st\<lparr>io_log := io_log st @ [Publish sms]\<rparr>)
            | None \<Rightarrow> Inl NullDereference)
      else Inr st)"

text \<open>The rest of \<^verbatim>\<open>evaluate\<close> once the ground-truth block has been passed.\<close>

definition evaluate_loaded ::
  "'c capabilities \<Rightarrow> EvaluationRequest \<Rightarrow> 'c evaluator \<Rightarrow> error + bool \<times> 'c evaluator" where
  "evaluate_loaded caps request st1 =
     (case load_map caps request st1 of
        Inl e \<Rightarrow> Inl e
      | Inr (False, st2) \<Rightarrow> Inr (False, st2)
      | Inr (True, st2) \<Rightarrow>
          (case run_evaluate caps request st2 of
             Inl e \<Rightarrow> Inl e
           | Inr (False, st3) \<Rightarrow> Inr (False, st3)
           | Inr (True, st3) \<Rightarrow>
               (case run_coloring caps request st3 of
                  Inl e \<Rightarrow> Inl e
                | Inr st4 \<Rightarrow>
                    (case run_visualize request st4 of
                       Inl e \<Rightarrow> Inl e
                     | Inr st5 \<Rightarrow> Inr (True, st5)))))"

text \<open>
  \<^verbatim>\<open>MapEvaluator::evaluate\<close>: the returned flag and the evaluator after the call, or the
  failure that ended the process.
\<close>

definition MapEvaluator_evaluate ::
  "'c capabilities \<Rightarrow> EvaluationRequest \<Rightarrow> 'c evaluator \<Rightarrow> error + bool \<times> 'c evaluator" where
  "MapEvaluator_evaluate caps request st =
     (if \<not> isValid request then Inr (False, st)
      else
        (case load_ground_truth caps request st of
           (False, st1) \<Rightarrow> Inr (False, st1)
         | (True, st1) \<Rightarrow> evaluate_loaded caps request st1))"

section \<open>Notions used in the statements and proofs\<close>

text \<open>
  The distinct elements of a list in the order of their first occurrence, and the elements
  of \<open>xs\<close> whose id (at the same position of \<open>ids\<close>) is \<open>g\<close>, in their order.
\<close>

definition first_seen :: "'a list \<Rightarrow> 'a list" where
  "first_seen xs = rev (remdups (rev xs))"

definition group_of :: "int \<Rightarrow> 'a list \<Rightarrow> int list \<Rightarrow> 'a list" where
  "group_of g xs ids = map fst (filter (\<lambda>(x, k). k = g) (zip xs ids))"

text \<open>
  The distances known for the ground-truth points inside the bounds, in the order of the
  points, and the value the loop records for a known distance.
\<close>

definition clamp_abs :: "real \<Rightarrow> real \<Rightarrow> real" where
  "clamp_abs max_dist d = (if \<bar>d\<bar> > max_dist then \<bar>max_dist\<bar> else \<bar>d\<bar>)"

definition known_distances :: "(Point \<Rightarrow> bool) \<Rightarrow> (Point \<Rightarrow> real option) \<Rightarrow> Point list \<Rightarrow> real list" where
  "known_distances valid get_dist gt = List.map_filter get_dist (filter valid gt)"

text \<open>
  Concrete inputs for the evaluator: capabilities over colours as triples of reals, whose
  loader returns the given cloud and whose map loader returns an empty collection; a request
  that asks for the colouring only; an evaluator on which nothing was called yet; and the
  evaluator after one successful call of that request.
\<close>

definition fixture_caps :: "Point list option \<Rightarrow> (real \<times> real \<times> real) capabilities" where
  "fixture_caps ply =
     \<lparr>pointIsValid = (\<lambda>p. True),
      getDistance = (\<lambda>sms p. Some 0),
      knnSearch = (\<lambda>points q. map (\<lambda>i. (i, 0)) [0..<length points]),
      interpolate = (\<lambda>sm p. Some (1 / 4)),
      computeCoordinatesFromLinearIndex = (\<lambda>sm bi li. (0, 0, 0)),
      Color = (\<lambda>r g b. (r, g, b)),
      loadPLYFile = (\<lambda>path. ply),
      loadFromFile = (\<lambda>path. Some []),
      open_output = (\<lambda>path. True)\<rparr>"

definition fixture_request :: EvaluationRequest where
  "fixture_request =
     \<lparr>verbosity = 0, map_file = ''maps/run1.panmap'', ground_truth_pointcloud_file = ''gt.ply'',
      maximum_distance = 1, evaluate = False, visualize = False, compute_coloring = True\<rparr>"

definition fresh_evaluator :: "(real \<times> real \<times> real) evaluator" where
  "fresh_evaluator =
     \<lparr>gt_ptcloud = None, loaded_submaps = None, target_directory = [], target_map_name = [],
      io_log = []\<rparr>"

definition fixture_loaded :: "(real \<times> real \<times> real) evaluator" where
  "fixture_loaded =
     \<lparr>gt_ptcloud = Some [(0, 0, 0)], loaded_submaps = Some [], target_directory = ''maps'',
      target_map_name = ''run1'',
      io_log = [LoadPLY ''gt.ply'', LoadMap ''maps/run1.panmap'',
                SaveMap ''maps/run1_evaluated.panmap'' []]\<rparr>"

text \<open>
  What the colouring leaves of a voxel and of a submap: distance and weight always, and the
  whole voxel when its distance lies outside the truncation band \<open>t\<close>; for a submap, its
  parameters, its allocated blocks, and block by block the voxels in this sense.
\<close>

definition kept_voxel :: "real \<Rightarrow> 'c TsdfVoxel \<Rightarrow> 'c TsdfVoxel \<Rightarrow> bool" where
  "kept_voxel t v v' =
     (distance v' = distance v \<and> weight v' = weight v \<and> (\<bar>distance v\<bar> > t \<longrightarrow> v' = v))"

definition kept :: "'c Submap \<Rightarrow> 'c Submap \<Rightarrow> bool" where
  "kept sm sm' =
     (truncation_distance sm' = truncation_distance sm
      \<and> voxels_per_side sm' = voxels_per_side sm
      \<and> voxel_size sm' = voxel_size sm
      \<and> allocated_blocks sm' = allocated_blocks sm
      \<and> (\<forall>bj. rel_option (list_all2 (kept_voxel (truncation_distance sm)))
                 (block sm bj) (block sm' bj)))"

text \<open>
  A submap for the colouring: two blocks of one voxel each, the first voxel on the surface,
  the second outside the truncation band.
\<close>

definition fixture_submap :: "(real \<times> real \<times> real) Submap" where
  "fixture_submap =
     \<lparr>voxels_per_side = 1, voxel_size = 1, truncation_distance = 1,
      allocated_blocks = [(0, 0, 0), (1, 0, 0)],
      block = [(0, 0, 0) \<mapsto> [\<lparr>distance = 0, weight = 1, color = (0, 0, 0)\<rparr>],
               (1, 0, 0) \<mapsto> [\<lparr>distance = 5, weight = 1, color = (7, 7, 7)\<rparr>]],
      mesh_updates = 0\<rparr>"

section \<open>The integrator: grouping and routing\<close>

lemma foreach_append:
  "foreach (xs @ ys) body s =
     (case foreach xs body s of Inl e \<Rightarrow> Inl e | Inr s' \<Rightarrow> foreach ys body s')"
  by (induction xs arbitrary: s) (auto split: sum.splits)

lemma find_pos_le: "find_pos ys x \<le> length ys"
  by (induction ys) auto

lemma find_pos_length: "find_pos ys x = length ys \<longleftrightarrow> x \<notin> set ys"
proof (induction ys)
  case Nil
  show ?case by simp
next
  case (Cons y ys)
  show ?case using Cons find_pos_le [of ys x] by auto
qed

lemma find_pos_nth: "x \<in> set ys \<Longrightarrow> find_pos ys x < length ys \<and> ys ! find_pos ys x = x"
  by (induction ys) auto

lemma first_seen_snoc:
  "first_seen (xs @ [x]) = (if x \<in> set xs then first_seen xs else first_seen xs @ [x])"
  by (simp add: first_seen_def)

lemma set_first_seen: "set (first_seen xs) = set xs"
  by (simp add: first_seen_def)

lemma distinct_first_seen: "distinct (first_seen xs)"
  by (simp add: first_seen_def)

lemma length_first_seen: "length (first_seen xs) = card (set xs)"
  using distinct_card [OF distinct_first_seen, of xs] by (simp add: set_first_seen)

lemma group_of_snoc:
  "length xs = length ids \<Longrightarrow>
   group_of g (xs @ [x]) (ids @ [k]) = (if k = g then group_of g xs ids @ [x] else group_of g xs ids)"
  by (simp add: group_of_def)

lemma group_of_absent: "length xs = length ids \<Longrightarrow> g \<notin> set ids \<Longrightarrow> group_of g xs ids = []"
  unfolding group_of_def
  by (induction xs ids rule: list_induct2) auto

lemma map_update_distinct:
  assumes "distinct L" "i < length L"
  shows "(map f L)[i := f (L ! i) @ [p]] = map (\<lambda>g. if g = L ! i then f g @ [p] else f g) L"
proof (rule nth_equalityI)
  show "length ((map f L)[i := f (L ! i) @ [p]]) = length (map (\<lambda>g. if g = L ! i then f g @ [p] else f g) L)"
    by simp
next
  fix j assume "j < length ((map f L)[i := f (L ! i) @ [p]])"
  then have j: "j < length L" by simp
  show "(map f L)[i := f (L ! i) @ [p]] ! j = map (\<lambda>g. if g = L ! i then f g @ [p] else f g) L ! j"
    using assms j by (auto simp: nth_list_update nth_eq_iff_index_eq)
qed

lemma snoc_update: "length xs = n \<Longrightarrow> (xs @ [y])[n := v] = xs @ [v]"
  by auto

lemma snoc_nth: "length xs = n \<Longrightarrow> (xs @ [y]) ! n = y"
  by auto

lemma segment_body_step:
  assumes n: "n < length ids" and lp: "length pointcloud = length ids" and lc: "length colors = length ids"
  shows "segment_body ids pointcloud colors n
           \<lparr>id_v = first_seen (take n ids),
            cloud_v = map (\<lambda>g. group_of g (take n pointcloud) (take n ids)) (first_seen (take n ids)),
            color_v = map (\<lambda>g. group_of g (take n colors) (take n ids)) (first_seen (take n ids))\<rparr>
         = Inr \<lparr>id_v = first_seen (take (Suc n) ids),
            cloud_v = map (\<lambda>g. group_of g (take (Suc n) pointcloud) (take (Suc n) ids)) (first_seen (take (Suc n) ids)),
            color_v = map (\<lambda>g. group_of g (take (Suc n) colors) (take (Suc n) ids)) (first_seen (take (Suc n) ids))\<rparr>"
proof -
  let ?L = "first_seen (take n ids)"
  let ?x = "ids ! n"
  have t1: "take (Suc n) ids = take n ids @ [?x]"
    using n by (simp add: take_Suc_conv_app_nth)
  have t2: "take (Suc n) pointcloud = take n pointcloud @ [pointcloud ! n]"
    using n lp by (simp add: take_Suc_conv_app_nth)
  have t3: "take (Suc n) colors = take n colors @ [colors ! n]"
    using n lc by (simp add: take_Suc_conv_app_nth)
  have l2: "length (take n pointcloud) = length (take n ids)" using lp by simp
  have l3: "length (take n colors) = length (take n ids)" using lc by simp
  have g2: "\<And>g. group_of g (take (Suc n) pointcloud) (take (Suc n) ids) =
      (if ?x = g then group_of g (take n pointcloud) (take n ids) @ [pointcloud ! n]
       else group_of g (take n pointcloud) (take n ids))"
    unfolding t1 t2 by (rule group_of_snoc [OF l2])
  have g3: "\<And>g. group_of g (take (Suc n) colors) (take (Suc n) ids) =
      (if ?x = g then group_of g (take n colors) (take n ids) @ [colors ! n]
       else group_of g (take n colors) (take n ids))"
    unfolding t1 t3 by (rule group_of_snoc [OF l3])
  show ?thesis
  proof (cases "?x \<in> set (take n ids)")
    case False
    then have fp: "find_pos ?L ?x = length ?L"
      by (simp add: find_pos_length set_first_seen)
    have fs: "first_seen (take (Suc n) ids) = ?L @ [?x]"
      using False by (simp add: t1 first_seen_snoc)
    have ne: "\<And>g. g \<in> set ?L \<Longrightarrow> ?x \<noteq> g"
      using False by (auto simp: set_first_seen)
    have e2: "group_of ?x (take n pointcloud) (take n ids) = []"
      by (rule group_of_absent [OF l2 False])
    have e3: "group_of ?x (take n colors) (take n ids) = []"
      by (rule group_of_absent [OF l3 False])
    show ?thesis
      unfolding segment_body_def fs
      using fp ne e2 e3 by (simp add: Let_def g2 g3 snoc_update snoc_nth cong: map_cong)
  next
    case True
    then have mem: "?x \<in> set ?L" by (simp add: set_first_seen)
    have fp: "find_pos ?L ?x < length ?L" "?L ! find_pos ?L ?x = ?x"
      using find_pos_nth [OF mem] by auto
    have fs: "first_seen (take (Suc n) ids) = ?L"
      using True by (simp add: t1 first_seen_snoc)
    have d: "distinct ?L" by (rule distinct_first_seen)
    have u2: "(map (\<lambda>g. group_of g (take n pointcloud) (take n ids)) ?L)
                [find_pos ?L ?x := group_of ?x (take n pointcloud) (take n ids) @ [pointcloud ! n]]
              = map (\<lambda>g. group_of g (take (Suc n) pointcloud) (take (Suc n) ids)) ?L"
      using map_update_distinct [OF d fp(1), of "\<lambda>g. group_of g (take n pointcloud) (take n ids)" "pointcloud ! n"]
      by (simp add: fp(2) g2 eq_commute cong: if_cong)
    have u3: "(map (\<lambda>g. group_of g (take n colors) (take n ids)) ?L)
                [find_pos ?L ?x := group_of ?x (take n colors) (take n ids) @ [colors ! n]]
              = map (\<lambda>g. group_of g (take (Suc n) colors) (take (Suc n) ids)) ?L"
      using map_update_distinct [OF d fp(1), of "\<lambda>g. group_of g (take n colors) (take n ids)" "colors ! n"]
      by (simp add: fp(2) g3 eq_commute cong: if_cong)
    show ?thesis
      unfolding segment_body_def fs
      using fp u2 u3 by (simp add: Let_def)
  qed
qed

lemma segment_prefix:
  assumes lp: "length pointcloud = length ids" and lc: "length colors = length ids"
  shows "n \<le> length ids \<Longrightarrow>
         foreach [0..<n] (segment_body ids pointcloud colors) \<lparr>id_v = [], cloud_v = [], color_v = []\<rparr>
         = Inr \<lparr>id_v = first_seen (take n ids),
            cloud_v = map (\<lambda>g. group_of g (take n pointcloud) (take n ids)) (first_seen (take n ids)),
            color_v = map (\<lambda>g. group_of g (take n colors) (take n ids)) (first_seen (take n ids))\<rparr>"
proof (induction n)
  case 0
  show ?case by (simp add: first_seen_def)
next
  case (Suc n)
  then have n: "n < length ids" by simp
  show ?case
    using Suc.IH n segment_body_step [OF n lp lc]
    by (simp add: foreach_append)
qed

lemma segment_pointcloud_eq:
  assumes lp: "length pointcloud = length ids" and lc: "length colors = length ids"
  shows "segment_pointcloud ids pointcloud colors
         = Inr \<lparr>id_v = first_seen ids,
            cloud_v = map (\<lambda>g. group_of g pointcloud ids) (first_seen ids),
            color_v = map (\<lambda>g. group_of g colors ids) (first_seen ids)\<rparr>"
  using segment_prefix [OF lp lc, of "length ids"] lp lc
  by (simp add: segment_pointcloud_def)

lemma length_group_of:
  "length xs = length ids \<Longrightarrow> length (group_of g xs ids) = count_list ids g"
  unfolding group_of_def
  by (induction xs ids rule: list_induct2) auto

lemma sum_group_sizes:
  assumes "length xs = length ids"
  shows "sum_list (map length (map (\<lambda>g. group_of g xs ids) (first_seen ids))) = length ids"
proof -
  have "sum_list (map length (map (\<lambda>g. group_of g xs ids) (first_seen ids)))
        = sum_list (map (count_list ids) (first_seen ids))"
    using assms by (simp add: length_group_of comp_def)
  also have "\<dots> = sum (count_list ids) (set ids)"
    using sum_list_distinct_conv_sum_set [OF distinct_first_seen, of "count_list ids" ids]
    by (simp add: set_first_seen)
  also have "\<dots> = length ids"
    by (rule sum_count_set) auto
  finally show ?thesis .
qed

lemma find_pos_append_in: "g \<in> set xs \<Longrightarrow> find_pos (xs @ ys) g = find_pos xs g"
  by (induction xs) auto

lemma find_pos_append_out: "g \<notin> set xs \<Longrightarrow> find_pos (xs @ ys) g = length xs + find_pos ys g"
  by (induction xs) auto

lemma first_seen_positions: "sorted_wrt (<) (map (find_pos ids) (first_seen ids))"
proof (induction ids rule: rev_induct)
  case Nil
  show ?case by (simp add: first_seen_def)
next
  case (snoc x xs)
  have eq: "map (find_pos (xs @ [x])) (first_seen xs) = map (find_pos xs) (first_seen xs)"
    by (rule map_cong) (auto simp: set_first_seen find_pos_append_in)
  show ?case
  proof (cases "x \<in> set xs")
    case True
    then show ?thesis using snoc by (simp add: first_seen_snoc eq)
  next
    case False
    have "\<forall>g\<in>set (first_seen xs). find_pos xs g < length xs"
      by (simp add: set_first_seen find_pos_nth)
    then show ?thesis
      using False snoc
      by (simp add: first_seen_snoc sorted_wrt_append find_pos_append_out eq)
  qed
qed

text \<open>
  Claim C3. For a frame whose three vectors have the same length, segmentation returns
  (it does not throw); there are as many groups as distinct ids; the group sizes sum to the
  number of points; group \<open>j\<close> holds exactly the points, and the colours, whose id is
  \<open>id_v ! j\<close>, in input order; and the ids are listed by first occurrence (no id twice,
  positions of first occurrence strictly increasing).
\<close>

theorem grouping_correct:
  assumes "length pointcloud = length ids" and "length colors = length ids"
  shows "\<exists>pc. segment_pointcloud ids pointcloud colors = Inr pc
    \<and> length (id_v pc) = card (set ids)
    \<and> length (cloud_v pc) = card (set ids)
    \<and> length (color_v pc) = card (set ids)
    \<and> sum_list (map length (cloud_v pc)) = length ids
    \<and> sum_list (map length (color_v pc)) = length ids
    \<and> distinct (id_v pc) \<and> set (id_v pc) = set ids
    \<and> (\<forall>j<length (id_v pc).
          cloud_v pc ! j = map fst (filter (\<lambda>(x, k). k = id_v pc ! j) (zip pointcloud ids))
        \<and> color_v pc ! j = map fst (filter (\<lambda>(x, k). k = id_v pc ! j) (zip colors ids)))
    \<and> sorted_wrt (<) (map (find_pos ids) (id_v pc))"
  using segment_pointcloud_eq [OF assms] sum_group_sizes [OF assms(1)] sum_group_sizes [OF assms(2)]
    first_seen_positions [of ids]
  by (simp add: length_first_seen distinct_first_seen set_first_seen group_of_def)

theorem grouping_correct_witness:
  "\<exists>pc. segment_pointcloud [1, 2, 1] [''a'', ''b'', ''c''] [''x'', ''y'', ''z''] = Inr pc
     \<and> id_v pc = [1, 2]
     \<and> cloud_v pc = [[''a'', ''c''], [''b'']]
     \<and> color_v pc = [[''x'', ''z''], [''y'']]
     \<and> length (id_v pc) = card (set [1, 2, 1 :: int])
     \<and> sum_list (map length (cloud_v pc)) = length [1, 2, 1 :: int]"
proof -
  have h1: "length [''a'', ''b'', ''c''] = length [1, 2, 1 :: int]" by simp
  have h2: "length [''x'', ''y'', ''z''] = length [1, 2, 1 :: int]" by simp
  from grouping_correct [OF h1 h2] obtain pc where
    pc: "segment_pointcloud [1, 2, 1] [''a'', ''b'', ''c''] [''x'', ''y'', ''z''] = Inr pc"
    and k: "length (id_v pc) = card (set [1, 2, 1 :: int])"
    and n: "sum_list (map length (cloud_v pc)) = length [1, 2, 1 :: int]"
    by blast
  have "segment_pointcloud [1, 2, 1] [''a'', ''b'', ''c''] [''x'', ''y'', ''z'']
        = Inr \<lparr>id_v = [1, 2], cloud_v = [[''a'', ''c''], [''b'']],
               color_v = [[''x'', ''z''], [''y'']]\<rparr>"
    by (simp add: segment_pointcloud_def segment_body_def upt_rec)
  with pc k n show ?thesis by auto
qed

lemma integrate_body_absent:
  "\<not> submapIdExists (submaps st) (id_v pc ! i) \<Longrightarrow>
   integrate_body f T pc i st = Inr (st\<lparr>warnings := warnings st @ [id_v pc ! i]\<rparr>)"
  by (simp add: integrate_body_def Let_def)

lemma integrate_body_present:
  "submaps st (id_v pc ! i) = Some m \<Longrightarrow> i < length (cloud_v pc) \<Longrightarrow> i < length (color_v pc) \<Longrightarrow>
   integrate_body f T pc i st =
     Inr (st\<lparr>tsdf_integrator := Some (id_v pc ! i),
             submaps := (submaps st)(id_v pc ! i \<mapsto> f T (cloud_v pc ! i) (color_v pc ! i) m)\<rparr>)"
  by (simp add: integrate_body_def submapIdExists_def Let_def)

lemma integrate_loop:
  assumes "\<forall>i\<in>set js. i < length (cloud_v pc) \<and> i < length (color_v pc)"
  shows "\<exists>st'. foreach js (integrate_body f T pc) st = Inr st'
     \<and> dom (submaps st') = dom (submaps st)
     \<and> warnings st' = warnings st @ filter (\<lambda>k. \<not> submapIdExists (submaps st) k) (map (\<lambda>i. id_v pc ! i) js)
     \<and> (\<forall>k. \<not> (k \<in> (\<lambda>i. id_v pc ! i) ` set js \<and> submapIdExists (submaps st) k)
            \<longrightarrow> submaps st' k = submaps st k)
     \<and> ((\<forall>i\<in>set js. \<not> submapIdExists (submaps st) (id_v pc ! i))
            \<longrightarrow> tsdf_integrator st' = tsdf_integrator st)"
  using assms
proof (induction js arbitrary: st)
  case Nil
  show ?case by simp
next
  case (Cons j js)
  let ?k = "id_v pc ! j"
  have rest: "\<forall>i\<in>set js. i < length (cloud_v pc) \<and> i < length (color_v pc)"
    using Cons.prems by simp
  show ?case
  proof (cases "submaps st ?k")
    case None
    let ?s1 = "st\<lparr>warnings := warnings st @ [?k]\<rparr>"
    have b: "integrate_body f T pc j st = Inr ?s1"
      using None by (simp add: integrate_body_absent submapIdExists_def)
    from Cons.IH [OF rest, of ?s1] obtain st' where
      r: "foreach js (integrate_body f T pc) ?s1 = Inr st'"
      and d: "dom (submaps st') = dom (submaps ?s1)"
      and w: "warnings st' = warnings ?s1 @ filter (\<lambda>k. \<not> submapIdExists (submaps ?s1) k) (map (\<lambda>i. id_v pc ! i) js)"
      and u: "\<forall>k. \<not> (k \<in> (\<lambda>i. id_v pc ! i) ` set js \<and> submapIdExists (submaps ?s1) k)
            \<longrightarrow> submaps st' k = submaps ?s1 k"
      and t: "(\<forall>i\<in>set js. \<not> submapIdExists (submaps ?s1) (id_v pc ! i))
            \<longrightarrow> tsdf_integrator st' = tsdf_integrator ?s1"
      by blast
    have "foreach (j # js) (integrate_body f T pc) st = Inr st'"
      using b r by simp
    moreover have "dom (submaps st') = dom (submaps st)" using d by simp
    moreover have "warnings st' = warnings st @
        filter (\<lambda>k. \<not> submapIdExists (submaps st) k) (map (\<lambda>i. id_v pc ! i) (j # js))"
      using w None by (simp add: submapIdExists_def)
    moreover have "\<forall>k. \<not> (k \<in> (\<lambda>i. id_v pc ! i) ` set (j # js) \<and> submapIdExists (submaps st) k)
            \<longrightarrow> submaps st' k = submaps st k"
      using u None by (auto simp: submapIdExists_def)
    moreover have "(\<forall>i\<in>set (j # js). \<not> submapIdExists (submaps st) (id_v pc ! i))
            \<longrightarrow> tsdf_integrator st' = tsdf_integrator st"
      using t by simp
    ultimately show ?thesis by blast
  next
    case (Some m)
    let ?s1 = "st\<lparr>tsdf_integrator := Some ?k,
                  submaps := (submaps st)(?k \<mapsto> f T (cloud_v pc ! j) (color_v pc ! j) m)\<rparr>"
    have b: "integrate_body f T pc j st = Inr ?s1"
      using Some Cons.prems by (simp add: integrate_body_present)
    have ex: "\<And>k. submapIdExists (submaps ?s1) k = submapIdExists (submaps st) k"
      using Some by (simp add: submapIdExists_def)
    from Cons.IH [OF rest, of ?s1] obtain st' where
      r: "foreach js (integrate_body f T pc) ?s1 = Inr st'"
      and d: "dom (submaps st') = dom (submaps ?s1)"
      and w: "warnings st' = warnings ?s1 @ filter (\<lambda>k. \<not> submapIdExists (submaps ?s1) k) (map (\<lambda>i. id_v pc ! i) js)"
      and u: "\<forall>k. \<not> (k \<in> (\<lambda>i. id_v pc ! i) ` set js \<and> submapIdExists (submaps ?s1) k)
            \<longrightarrow> submaps st' k = submaps ?s1 k"
      by blast
    have "foreach (j # js) (integrate_body f T pc) st = Inr st'"
      using b r by simp
    moreover have "dom (submaps st') = dom (submaps st)"
      using d Some by (auto simp: dom_def)
    moreover have "warnings st' = warnings st @
        filter (\<lambda>k. \<not> submapIdExists (submaps st) k) (map (\<lambda>i. id_v pc ! i) (j # js))"
      using w Some unfolding ex by (simp add: submapIdExists_def)
    moreover have "\<forall>k. \<not> (k \<in> (\<lambda>i. id_v pc ! i) ` set (j # js) \<and> submapIdExists (submaps st) k)
            \<longrightarrow> submaps st' k = submaps st k"
      using u Some unfolding ex by (auto simp: submapIdExists_def)
    moreover have "(\<forall>i\<in>set (j # js). \<not> submapIdExists (submaps st) (id_v pc ! i))
            \<longrightarrow> tsdf_integrator st' = tsdf_integrator st"
      using Some by (simp add: submapIdExists_def)
    ultimately show ?thesis by blast
  qed
qed

lemma count_list_filter_distinct:
  "distinct xs \<Longrightarrow> count_list (filter P xs) k = (if k \<in> set xs \<and> P k then 1 else 0)"
  by (induction xs) auto

text \<open>
  Claim C4. For a frame whose three vectors have the same length, integration returns
  (it does not raise); the key set of the collection is unchanged; the warnings added by the
  frame hold each id of the frame that is missing from the collection exactly once and no
  other id; a submap whose id is not an id of the frame that exists in the collection is left
  as it was; when every id of the frame is missing, the collection and the integrator are
  unchanged; and the loop body for a missing id does nothing but add its one warning.
\<close>

theorem routing_safety:
  assumes "length pointcloud = length ids" and "length colors = length ids"
  shows "\<exists>st'. processPointcloud f st T pointcloud colors ids = Inr st'
     \<and> dom (submaps st') = dom (submaps st)
     \<and> (\<exists>ws. warnings st' = warnings st @ ws
           \<and> (\<forall>k. count_list ws k = (if k \<in> set ids \<and> \<not> submapIdExists (submaps st) k then 1 else 0)))
     \<and> (\<forall>k. \<not> (k \<in> set ids \<and> submapIdExists (submaps st) k) \<longrightarrow> submaps st' k = submaps st k)
     \<and> ((\<forall>k\<in>set ids. \<not> submapIdExists (submaps st) k)
           \<longrightarrow> submaps st' = submaps st \<and> tsdf_integrator st' = tsdf_integrator st)
     \<and> (\<forall>pc i s. \<not> submapIdExists (submaps s) (id_v pc ! i) \<longrightarrow>
           integrate_body f T pc i s = Inr (s\<lparr>warnings := warnings s @ [id_v pc ! i]\<rparr>))"
proof -
  let ?pc = "\<lparr>id_v = first_seen ids,
            cloud_v = map (\<lambda>g. group_of g pointcloud ids) (first_seen ids),
            color_v = map (\<lambda>g. group_of g colors ids) (first_seen ids)\<rparr>"
  let ?js = "[0..<length (id_v ?pc)]"
  have seg: "segment_pointcloud ids pointcloud colors = Inr ?pc"
    by (rule segment_pointcloud_eq [OF assms])
  have rng: "\<forall>i\<in>set ?js. i < length (cloud_v ?pc) \<and> i < length (color_v ?pc)"
    by simp
  have ids: "map (\<lambda>i. id_v ?pc ! i) ?js = first_seen ids"
    by (simp add: map_nth)
  have img: "(\<lambda>i. id_v ?pc ! i) ` set ?js = set ids"
    using arg_cong [OF ids, of set] by (simp only: set_map set_first_seen)
  from integrate_loop [OF rng, of f T st] obtain st' where
    r: "foreach ?js (integrate_body f T ?pc) st = Inr st'"
    and d: "dom (submaps st') = dom (submaps st)"
    and w: "warnings st' = warnings st @
              filter (\<lambda>k. \<not> submapIdExists (submaps st) k) (map (\<lambda>i. id_v ?pc ! i) ?js)"
    and u: "\<forall>k. \<not> (k \<in> (\<lambda>i. id_v ?pc ! i) ` set ?js \<and> submapIdExists (submaps st) k)
            \<longrightarrow> submaps st' k = submaps st k"
    and t: "(\<forall>i\<in>set ?js. \<not> submapIdExists (submaps st) (id_v ?pc ! i))
            \<longrightarrow> tsdf_integrator st' = tsdf_integrator st"
    by blast
  have 1: "processPointcloud f st T pointcloud colors ids = Inr st'"
    using assms seg r by (simp add: processPointcloud_def)
  have w': "warnings st' = warnings st @ filter (\<lambda>k. \<not> submapIdExists (submaps st) k) (first_seen ids)"
    using w unfolding ids .
  have 3: "\<exists>ws. warnings st' = warnings st @ ws
           \<and> (\<forall>k. count_list ws k = (if k \<in> set ids \<and> \<not> submapIdExists (submaps st) k then 1 else 0))"
    using w' count_list_filter_distinct [OF distinct_first_seen, of _ ids]
    by (simp add: set_first_seen)
  have 4: "\<forall>k. \<not> (k \<in> set ids \<and> submapIdExists (submaps st) k) \<longrightarrow> submaps st' k = submaps st k"
    using u unfolding img .
  have 5: "(\<forall>k\<in>set ids. \<not> submapIdExists (submaps st) k)
           \<longrightarrow> submaps st' = submaps st \<and> tsdf_integrator st' = tsdf_integrator st"
  proof
    assume a: "\<forall>k\<in>set ids. \<not> submapIdExists (submaps st) k"
    have "submaps st' = submaps st"
      using 4 a by (intro ext) auto
    moreover have "\<forall>i\<in>set ?js. \<not> submapIdExists (submaps st) (id_v ?pc ! i)"
      using a img by blast
    ultimately show "submaps st' = submaps st \<and> tsdf_integrator st' = tsdf_integrator st"
      using t by blast
  qed
  have 6: "\<forall>pc i s. \<not> submapIdExists (submaps s) (id_v pc ! i) \<longrightarrow>
           integrate_body f T pc i s = Inr (s\<lparr>warnings := warnings s @ [id_v pc ! i]\<rparr>)"
    by (simp add: integrate_body_absent)
  show ?thesis using 1 d 3 4 5 6 by blast
qed

theorem routing_safety_witness:
  "processPointcloud (\<lambda>T cloud cols (m :: string list). m @ cloud)
     \<lparr>submaps = [2 \<mapsto> []], tsdf_integrator = None, warnings = []\<rparr> ()
     [''a'', ''b'', ''c''] [''x'', ''y'', ''z''] [1, 2, 1]
   = Inr \<lparr>submaps = [2 \<mapsto> [''b'']], tsdf_integrator = Some 2, warnings = [1]\<rparr>
   \<and> (\<exists>st'. processPointcloud (\<lambda>T cloud cols (m :: string list). m @ cloud)
          \<lparr>submaps = [2 \<mapsto> []], tsdf_integrator = None, warnings = []\<rparr> ()
          [''a'', ''b'', ''c''] [''x'', ''y'', ''z''] [1, 2, 1] = Inr st'
        \<and> dom (submaps st') = {2} \<and> submaps st' 1 = None)"
proof -
  have h1: "length [''a'', ''b'', ''c''] = length [1, 2, 1 :: int]" by simp
  have h2: "length [''x'', ''y'', ''z''] = length [1, 2, 1 :: int]" by simp
  have e: "processPointcloud (\<lambda>T cloud cols (m :: string list). m @ cloud)
     \<lparr>submaps = [2 \<mapsto> []], tsdf_integrator = None, warnings = []\<rparr> ()
     [''a'', ''b'', ''c''] [''x'', ''y'', ''z''] [1, 2, 1]
   = Inr \<lparr>submaps = [2 \<mapsto> [''b'']], tsdf_integrator = Some 2, warnings = [1]\<rparr>"
    by (simp add: processPointcloud_def segment_pointcloud_def segment_body_def
        integrate_body_def submapIdExists_def upt_rec Let_def)
  from routing_safety [OF h1 h2, of "\<lambda>T cloud cols (m :: string list). m @ cloud"
      "\<lparr>submaps = [2 \<mapsto> []], tsdf_integrator = None, warnings = []\<rparr>" "()"]
  obtain st' where
    "processPointcloud (\<lambda>T cloud cols (m :: string list). m @ cloud)
          \<lparr>submaps = [2 \<mapsto> []], tsdf_integrator = None, warnings = []\<rparr> ()
          [''a'', ''b'', ''c''] [''x'', ''y'', ''z''] [1, 2, 1] = Inr st'"
    "dom (submaps st') = dom [2 \<mapsto> ([] :: string list)]"
    "\<forall>k. \<not> (k \<in> set [1, 2, 1] \<and> submapIdExists [2 \<mapsto> ([] :: string list)] k) \<longrightarrow> submaps st' k = [2 \<mapsto> []] k"
    by auto
  then show ?thesis using e by (auto simp: submapIdExists_def)
qed

section \<open>The error pass\<close>

lemma known_distances_Nil: "known_distances valid get_dist [] = []"
  by (simp add: known_distances_def map_filter_simps)

lemma known_distances_Cons:
  "known_distances valid get_dist (p # ps) =
     (if valid p then (case get_dist p of Some d \<Rightarrow> [d] | None \<Rightarrow> []) else [])
       @ known_distances valid get_dist ps"
  by (simp add: known_distances_def map_filter_simps split: option.splits)

lemma error_body_out:
  "\<not> valid p \<Longrightarrow> error_body valid get_dist max_dist tot interval p s = Inr s"
  by (simp add: error_body_def)

lemma error_body_zero:
  "valid p \<Longrightarrow> error_body valid get_dist max_dist tot 0 p s = Inl DivisionByZero"
  by (simp add: error_body_def Let_def)

lemma error_body_in:
  assumes "valid p" and "interval \<noteq> 0"
  shows "\<exists>s'. error_body valid get_dist max_dist tot interval p s = Inr s'
    \<and> unknown_points s' = unknown_points s + (if get_dist p = None then 1 else 0)
    \<and> truncated_points s' = truncated_points s
         + length (filter (\<lambda>d. \<bar>d\<bar> > max_dist) (case get_dist p of Some d \<Rightarrow> [d] | None \<Rightarrow> []))
    \<and> abserror s' = abserror s
         @ map (clamp_abs max_dist) (case get_dist p of Some d \<Rightarrow> [d] | None \<Rightarrow> [])
    \<and> count s' = count s + 1"
  using assms
  by (cases "get_dist p") (simp_all add: error_body_def Let_def clamp_abs_def)

lemma error_loop:
  assumes "interval \<noteq> 0"
  shows "\<exists>s'. foreach gt (error_body valid get_dist max_dist tot interval) s = Inr s'
    \<and> unknown_points s' = unknown_points s + length (filter (\<lambda>p. valid p \<and> get_dist p = None) gt)
    \<and> truncated_points s' = truncated_points s
         + length (filter (\<lambda>d. \<bar>d\<bar> > max_dist) (known_distances valid get_dist gt))
    \<and> abserror s' = abserror s @ map (clamp_abs max_dist) (known_distances valid get_dist gt)
    \<and> count s' = count s + length (filter valid gt)"
proof (induction gt arbitrary: s)
  case Nil
  show ?case by (simp add: known_distances_Nil)
next
  case (Cons p ps)
  show ?case
  proof (cases "valid p")
    case False
    then show ?thesis
      using Cons [of s] by (simp add: error_body_out known_distances_Cons)
  next
    case True
    from error_body_in [where valid = valid and p = p and interval = interval
        and get_dist = get_dist and max_dist = max_dist and tot = tot and s = s, OF True assms]
    obtain s1 where
      b: "error_body valid get_dist max_dist tot interval p s = Inr s1"
      and u: "unknown_points s1 = unknown_points s + (if get_dist p = None then 1 else 0)"
      and t: "truncated_points s1 = truncated_points s
         + length (filter (\<lambda>d. \<bar>d\<bar> > max_dist) (case get_dist p of Some d \<Rightarrow> [d] | None \<Rightarrow> []))"
      and a: "abserror s1 = abserror s
         @ map (clamp_abs max_dist) (case get_dist p of Some d \<Rightarrow> [d] | None \<Rightarrow> [])"
      and c: "count s1 = count s + 1"
      by blast
    from Cons [of s1] obtain s' where
      r: "foreach ps (error_body valid get_dist max_dist tot interval) s1 = Inr s'"
      and u': "unknown_points s' = unknown_points s1 + length (filter (\<lambda>p. valid p \<and> get_dist p = None) ps)"
      and t': "truncated_points s' = truncated_points s1
         + length (filter (\<lambda>d. \<bar>d\<bar> > max_dist) (known_distances valid get_dist ps))"
      and a': "abserror s' = abserror s1 @ map (clamp_abs max_dist) (known_distances valid get_dist ps)"
      and c': "count s' = count s1 + length (filter valid ps)"
      by blast
    have "foreach (p # ps) (error_body valid get_dist max_dist tot interval) s = Inr s'"
      using b r by simp
    moreover have "unknown_points s' = unknown_points s + length (filter (\<lambda>p. valid p \<and> get_dist p = None) (p # ps))"
      using u u' True by simp
    moreover have "truncated_points s' = truncated_points s
         + length (filter (\<lambda>d. \<bar>d\<bar> > max_dist) (known_distances valid get_dist (p # ps)))"
      using t t' True by (simp add: known_distances_Cons)
    moreover have "abserror s' = abserror s @ map (clamp_abs max_dist) (known_distances valid get_dist (p # ps))"
      using a a' True by (simp add: known_distances_Cons)
    moreover have "count s' = count s + length (filter valid (p # ps))"
      using c c' True by simp
    ultimately show ?thesis by blast
  qed
qed

lemma error_loop_zero:
  "foreach gt (error_body valid get_dist max_dist tot 0) s =
     (if \<exists>p\<in>set gt. valid p then Inl DivisionByZero else Inr s)"
proof (induction gt)
  case Nil
  show ?case by simp
next
  case (Cons p ps)
  show ?case
  proof (cases "valid p")
    case True
    then show ?thesis by (simp add: error_body_zero)
  next
    case False
    then show ?thesis using Cons by (simp add: error_body_out)
  qed
qed

lemma length_known_split:
  "length (filter (\<lambda>p. valid p \<and> get_dist p = None) gt) + length (known_distances valid get_dist gt)
     = length (filter valid gt)"
  by (induction gt) (auto simp: known_distances_Nil known_distances_Cons split: option.splits)

lemma computeReconstructionError_large:
  assumes "100 \<le> length gt"
  shows "\<exists>r. computeReconstructionError valid get_dist max_dist gt = Inr r
    \<and> total_points r = length gt
    \<and> unknown r = length (filter (\<lambda>p. valid p \<and> get_dist p = None) gt)
    \<and> truncated r = length (filter (\<lambda>d. \<bar>d\<bar> > max_dist) (known_distances valid get_dist gt))
    \<and> samples r = map (clamp_abs max_dist) (known_distances valid get_dist gt)
    \<and> (mean r, stddev r, rmse r) = summary (samples r)"
proof -
  let ?s0 = "\<lparr>unknown_points = 0, truncated_points = 0, abserror = [], count = 0, bar = []\<rparr>"
  have i: "length gt div 100 \<noteq> 0" using assms by simp
  from error_loop [OF i, of gt valid get_dist max_dist "length gt" ?s0] obtain s' where
    "foreach gt (error_body valid get_dist max_dist (length gt) (length gt div 100)) ?s0 = Inr s'"
    "unknown_points s' = length (filter (\<lambda>p. valid p \<and> get_dist p = None) gt)"
    "truncated_points s' = length (filter (\<lambda>d. \<bar>d\<bar> > max_dist) (known_distances valid get_dist gt))"
    "abserror s' = map (clamp_abs max_dist) (known_distances valid get_dist gt)"
    by auto
  then show ?thesis
    by (simp add: computeReconstructionError_def Let_def split: prod.splits)
qed

lemma computeReconstructionError_small:
  assumes "length gt < 100"
  shows "computeReconstructionError valid get_dist max_dist gt =
    (if \<exists>p\<in>set gt. valid p then Inl DivisionByZero
     else Inr \<lparr>mean = 0, stddev = 0, rmse = 0, total_points = length gt, unknown = 0,
               truncated = 0, samples = [], displayed = [100]\<rparr>)"
  using assms
  by (simp add: computeReconstructionError_def Let_def error_loop_zero summary_def)

lemma computeReconstructionError_cases:
  assumes "computeReconstructionError valid get_dist max_dist gt = Inr r"
  shows "total_points r = length gt
    \<and> unknown r = length (filter (\<lambda>p. valid p \<and> get_dist p = None) gt)
    \<and> truncated r = length (filter (\<lambda>d. \<bar>d\<bar> > max_dist) (known_distances valid get_dist gt))
    \<and> samples r = map (clamp_abs max_dist) (known_distances valid get_dist gt)
    \<and> (mean r, stddev r, rmse r) = summary (samples r)"
proof (cases "100 \<le> length gt")
  case True
  from computeReconstructionError_large [OF True, of valid get_dist max_dist] assms
  show ?thesis by auto
next
  case False
  then have small: "length gt < 100" by simp
  have none: "\<not> (\<exists>p\<in>set gt. valid p)"
    using assms computeReconstructionError_small [OF small, of valid get_dist max_dist]
    by (auto split: if_splits)
  then have f: "filter valid gt = []" by (auto simp: filter_empty_conv)
  have k: "known_distances valid get_dist gt = []"
    by (simp add: known_distances_def f map_filter_simps)
  have f2: "filter (\<lambda>p. valid p \<and> get_dist p = None) gt = []"
    using none by (auto simp: filter_empty_conv)
  from assms computeReconstructionError_small [OF small, of valid get_dist max_dist] none
  have "r = \<lparr>mean = 0, stddev = 0, rmse = 0, total_points = length gt, unknown = 0,
               truncated = 0, samples = [], displayed = [100]\<rparr>" by simp
  then show ?thesis by (simp add: k f2 summary_def)
qed

lemma known_distances_length_le: "length (known_distances valid get_dist gt) \<le> length (filter valid gt)"
  using length_known_split [of valid get_dist gt] by simp

text \<open>
  Claim C1, as amended. When the error pass returns a row: the unknown points and the
  error samples together are the points inside the bounds, which are at most all points of
  the ground truth; the truncated points are among the samples (at most as many as
  samples), since a clamped value is recorded as a sample; and the row's total is the size
  of the ground truth.
\<close>

theorem error_counters:
  assumes "computeReconstructionError valid get_dist max_dist gt = Inr r"
  shows "unknown r + length (samples r) = length (filter valid gt)
       \<and> length (filter valid gt) \<le> length gt
       \<and> truncated r \<le> length (samples r)
       \<and> total_points r = length gt"
proof -
  from computeReconstructionError_cases [OF assms]
  have u: "unknown r = length (filter (\<lambda>p. valid p \<and> get_dist p = None) gt)"
    and t: "truncated r = length (filter (\<lambda>d. \<bar>d\<bar> > max_dist) (known_distances valid get_dist gt))"
    and s: "samples r = map (clamp_abs max_dist) (known_distances valid get_dist gt)"
    and n: "total_points r = length gt"
    by simp_all
  have "unknown r + length (samples r) = length (filter valid gt)"
    using length_known_split [of valid get_dist gt] by (simp add: u s)
  moreover have "truncated r \<le> length (samples r)"
    by (simp add: t s)
  ultimately show ?thesis using n by simp
qed

lemma known_replicate_const:
  "known_distances (\<lambda>p. True) (\<lambda>p. Some c) (replicate n x) = replicate n c"
  by (simp add: known_distances_def map_filter_def)

theorem error_counters_witness:
  "\<exists>r. computeReconstructionError (\<lambda>p. True) (\<lambda>p. Some (1 / 2)) (1 / 10) (replicate 100 (0, 0, 0)) = Inr r
     \<and> unknown r + length (samples r) = 100 \<and> truncated r \<le> length (samples r)"
proof -
  have "100 \<le> length (replicate 100 (0 :: real, 0 :: real, 0 :: real))" by simp
  from computeReconstructionError_large [OF this, of "\<lambda>p. True" "\<lambda>p. Some (1 / 2)" "1 / 10"]
  obtain r where
    r: "computeReconstructionError (\<lambda>p. True) (\<lambda>p. Some (1 / 2)) (1 / 10) (replicate 100 (0, 0, 0)) = Inr r"
    by blast
  from error_counters [OF r] show ?thesis using r by simp
qed

text \<open>
  Claim C1 as stated fails: 100 points inside the bounds, each with known distance
  \<open>0.5\<close>, and \<open>maximum_distance = 0.1\<close>. All 100 are truncated and all 100 are
  samples, so the three counters add up to 200, not to the 100 points inside the bounds.
\<close>

theorem error_counters_counterexample:
  "(case computeReconstructionError (\<lambda>p. True) (\<lambda>p. Some (1 / 2)) (1 / 10) (replicate 100 (0, 0, 0)) of
      Inl e \<Rightarrow> False
    | Inr r \<Rightarrow> length (filter (\<lambda>p. True) (replicate 100 (0 :: real, 0 :: real, 0 :: real))) = 100
             \<and> unknown r + truncated r + length (samples r) = 200)"
proof -
  have "100 \<le> length (replicate 100 (0 :: real, 0 :: real, 0 :: real))" by simp
  from computeReconstructionError_large [OF this, of "\<lambda>p. True" "\<lambda>p. Some (1 / 2)" "1 / 10"]
  obtain r where
    r: "computeReconstructionError (\<lambda>p. True) (\<lambda>p. Some (1 / 2)) (1 / 10) (replicate 100 (0, 0, 0)) = Inr r"
    and u: "unknown r = length (filter (\<lambda>p. True \<and> Some (1 / 2 :: real) = None) (replicate 100 (0 :: real, 0 :: real, 0 :: real)))"
    and t: "truncated r = length (filter (\<lambda>d. \<bar>d\<bar> > 1 / 10)
              (known_distances (\<lambda>p. True) (\<lambda>p. Some (1 / 2)) (replicate 100 (0, 0, 0))))"
    and s: "samples r = map (clamp_abs (1 / 10))
              (known_distances (\<lambda>p. True) (\<lambda>p. Some (1 / 2)) (replicate 100 (0, 0, 0)))"
    by blast
  have "unknown r = 0" using u by simp
  moreover have "truncated r = 100" using t by (simp add: known_replicate_const)
  moreover have "length (samples r) = 100" using s by (simp add: known_replicate_const)
  ultimately show ?thesis using r by simp
qed

lemma foldl_plus_sum_list:
  "foldl (\<lambda>a v. a + f v) a xs = a + sum_list (map f xs)"
  for a :: real
  by (induction xs arbitrary: a) (simp_all add: add.assoc)

lemma summary_mean_rmse:
  assumes "summary xs = (m, sd, r)"
  shows "m = (if xs = [] then 0 else sum_list xs / real (length xs))
       \<and> r = (if xs = [] then 0
              else sqrt (sum_list (map (\<lambda>v. v ^ 2) xs) / real (length xs)))"
  using assms foldl_plus_sum_list [of "\<lambda>v. v" 0 xs]
  by (auto simp: summary_def Let_def foldl_plus_sum_list)

lemma computeReconstructionError_returns:
  "(\<exists>r. computeReconstructionError valid get_dist max_dist gt = Inr r)
     = (100 \<le> length gt \<or> (\<forall>p\<in>set gt. \<not> valid p))"
proof (cases "100 \<le> length gt")
  case True
  then show ?thesis
    using computeReconstructionError_large [OF True, of valid get_dist max_dist] by blast
next
  case False
  then have "length gt < 100" by simp
  from computeReconstructionError_small [OF this, of valid get_dist max_dist] False
  show ?thesis by auto
qed

text \<open>
  Claim C2. With a positive \<open>maximum_distance\<close>: over a whole pass that returns, the
  samples are the known distances of the points inside the bounds, in order, each replaced
  by \<open>maximum_distance\<close> when its absolute value exceeds it and by its absolute value
  otherwise, \<open>truncated\<close> counts exactly those that exceed it, and the reported mean and
  RMSE are the mean and the root of the mean square of these samples, so that a clamped sample
  enters both as \<open>maximum_distance\<close>; for one point inside the bounds with known
  distance \<open>d\<close>, the loop body adds one to the truncated points and records exactly
  \<open>maximum_distance\<close> when \<open>\<bar>d\<bar>\<close> exceeds it, and otherwise (also when
  \<open>\<bar>d\<bar>\<close> equals it) leaves the counter and records \<open>\<bar>d\<bar>\<close>; and the pass
  returns a row exactly when the ground truth has at least 100 points or none of its points
  is inside the bounds.
\<close>

theorem truncation_clamps:
  assumes pos: "0 < max_dist"
  shows "(computeReconstructionError valid get_dist max_dist gt = Inr r \<longrightarrow>
            samples r = map (\<lambda>d. if \<bar>d\<bar> > max_dist then max_dist else \<bar>d\<bar>)
                          (List.map_filter get_dist (filter valid gt))
          \<and> truncated r = length (filter (\<lambda>d. \<bar>d\<bar> > max_dist)
                          (List.map_filter get_dist (filter valid gt)))
          \<and> mean r = (if samples r = [] then 0
                       else sum_list (samples r) / real (length (samples r)))
          \<and> rmse r = (if samples r = [] then 0
                       else sqrt (sum_list (map (\<lambda>v. v ^ 2) (samples r))
                                    / real (length (samples r)))))
       \<and> (valid p \<and> get_dist p = Some d
            \<and> error_body valid get_dist max_dist n interval p s = Inr s' \<longrightarrow>
            (if \<bar>d\<bar> > max_dist
             then truncated_points s' = truncated_points s + 1 \<and> abserror s' = abserror s @ [max_dist]
             else truncated_points s' = truncated_points s \<and> abserror s' = abserror s @ [\<bar>d\<bar>])
            \<and> unknown_points s' = unknown_points s)
       \<and> ((\<exists>r. computeReconstructionError valid get_dist max_dist gt = Inr r)
            = (100 \<le> length gt \<or> (\<forall>p\<in>set gt. \<not> valid p)))"
proof -
  have c: "clamp_abs max_dist = (\<lambda>d. if \<bar>d\<bar> > max_dist then max_dist else \<bar>d\<bar>)"
    using pos by (auto simp: clamp_abs_def fun_eq_iff)
  have run: "computeReconstructionError valid get_dist max_dist gt = Inr r \<longrightarrow>
            samples r = map (\<lambda>d. if \<bar>d\<bar> > max_dist then max_dist else \<bar>d\<bar>)
                          (List.map_filter get_dist (filter valid gt))
          \<and> truncated r = length (filter (\<lambda>d. \<bar>d\<bar> > max_dist)
                          (List.map_filter get_dist (filter valid gt)))
          \<and> mean r = (if samples r = [] then 0
                       else sum_list (samples r) / real (length (samples r)))
          \<and> rmse r = (if samples r = [] then 0
                       else sqrt (sum_list (map (\<lambda>v. v ^ 2) (samples r))
                                    / real (length (samples r))))"
  proof
    assume a: "computeReconstructionError valid get_dist max_dist gt = Inr r"
    note f = computeReconstructionError_cases [OF a]
    from f have sm: "summary (samples r) = (mean r, stddev r, rmse r)" by simp
    have 1: "samples r = map (\<lambda>d. if \<bar>d\<bar> > max_dist then max_dist else \<bar>d\<bar>)
                          (List.map_filter get_dist (filter valid gt))
          \<and> truncated r = length (filter (\<lambda>d. \<bar>d\<bar> > max_dist)
                          (List.map_filter get_dist (filter valid gt)))"
      using f by (simp add: c known_distances_def)
    show "samples r = map (\<lambda>d. if \<bar>d\<bar> > max_dist then max_dist else \<bar>d\<bar>)
                          (List.map_filter get_dist (filter valid gt))
          \<and> truncated r = length (filter (\<lambda>d. \<bar>d\<bar> > max_dist)
                          (List.map_filter get_dist (filter valid gt)))
          \<and> mean r = (if samples r = [] then 0
                       else sum_list (samples r) / real (length (samples r)))
          \<and> rmse r = (if samples r = [] then 0
                       else sqrt (sum_list (map (\<lambda>v. v ^ 2) (samples r))
                                    / real (length (samples r))))"
      using 1 summary_mean_rmse [OF sm] by blast
  qed
  have step: "valid p \<and> get_dist p = Some d
            \<and> error_body valid get_dist max_dist n interval p s = Inr s' \<longrightarrow>
            (if \<bar>d\<bar> > max_dist
             then truncated_points s' = truncated_points s + 1 \<and> abserror s' = abserror s @ [max_dist]
             else truncated_points s' = truncated_points s \<and> abserror s' = abserror s @ [\<bar>d\<bar>])
            \<and> unknown_points s' = unknown_points s"
    using pos by (auto simp: error_body_def Let_def split: if_splits)
  show ?thesis
    using run step computeReconstructionError_returns [of valid get_dist max_dist gt] by blast
qed

theorem truncation_clamps_witness:
  "(0 :: real) < 1 / 10
   \<and> (\<exists>r. computeReconstructionError (\<lambda>p. True)
              (\<lambda>p. Some (if fst p = 1 then 1 / 2 else 1 / 10)) (1 / 10)
              ((1, 0, 0) # replicate 99 (0, 0, 0)) = Inr r
          \<and> samples r = 1 / 10 # replicate 99 (1 / 10) \<and> truncated r = 1
          \<and> mean r = 1 / 10 \<and> rmse r = 1 / 10)
   \<and> error_body (\<lambda>p. True) (\<lambda>p. Some (if fst p = 1 then 1 / 2 else 1 / 10)) (1 / 10) 100 1
        (1, 0, 0)
        \<lparr>unknown_points = 0, truncated_points = 0, abserror = [], count = 0, bar = []\<rparr>
      = Inr \<lparr>unknown_points = 0, truncated_points = 1, abserror = [1 / 10], count = 1, bar = [0]\<rparr>
   \<and> \<not> (\<exists>r. computeReconstructionError (\<lambda>p. True) (\<lambda>p. Some (1 / 2)) (1 / 10)
               [(1, 0, 0)] = Inr r)"
proof -
  let ?g = "\<lambda>p :: Point. Some (if fst p = 1 then 1 / 2 else 1 / 10 :: real)"
  let ?gt = "(1, 0, 0) # replicate 99 (0 :: real, 0 :: real, 0 :: real)"
  let ?s = "\<lparr>unknown_points = 0, truncated_points = 0, abserror = [], count = 0, bar = []\<rparr>"
  let ?s' = "\<lparr>unknown_points = 0, truncated_points = 1, abserror = [1 / 10], count = 1, bar = [0]\<rparr>"
  have h: "(0 :: real) < 1 / 10" by simp
  have b: "error_body (\<lambda>p. True) ?g (1 / 10) 100 1 (1, 0, 0) ?s = Inr ?s'"
    by (simp add: error_body_def Let_def)
  have "\<exists>r. computeReconstructionError (\<lambda>p. True) ?g (1 / 10) ?gt = Inr r"
    using truncation_clamps [OF h, of "\<lambda>p. True" ?g ?gt] by simp
  then obtain r where r: "computeReconstructionError (\<lambda>p. True) ?g (1 / 10) ?gt = Inr r"
    by blast
  note t = truncation_clamps [OF h, of "\<lambda>p. True" ?g ?gt r "(1, 0, 0)" "1 / 2" 100 1 ?s ?s']
  have sa: "samples r = 1 / 10 # replicate 99 (1 / 10)" and tr: "truncated r = 1"
    using t r by (simp_all add: map_filter_def)
  have m: "mean r = 1 / 10"
    using t r unfolding sa by (simp add: sum_list_replicate)
  have sq: "sqrt (1 / 100) = 1 / 10"
    by (rule real_sqrt_unique) (simp_all add: power2_eq_square)
  have "rmse r = sqrt (1 / 100)"
    using t r unfolding sa by (simp add: sum_list_replicate power2_eq_square)
  then have rm: "rmse r = 1 / 10" using sq by simp
  have one: "\<not> (\<exists>r. computeReconstructionError (\<lambda>p. True) (\<lambda>p. Some (1 / 2)) (1 / 10)
               [(1, 0, 0)] = Inr r)"
    using truncation_clamps [OF h, of "\<lambda>p. True" "\<lambda>p. Some (1 / 2)" "[(1, 0, 0)]"]
    by simp
  show ?thesis using h r sa tr m rm b one by blast
qed

text \<open>
  The summary in closed form: the mean is the sum of the samples over their number (0 for
  no sample), the RMSE is the root of the mean square (0 for no sample), and the standard
  deviation is the root of the sum of squared deviations over \<open>n - 1\<close> for more than
  two samples, and the sum of squared deviations itself otherwise.
\<close>

theorem summary_formulas:
  "summary xs =
     (let n = length xs;
          m = (if xs = [] then 0 else sum_list xs / real n);
          sq = sum_list (map (\<lambda>v. (v - m) ^ 2) xs)
      in (m,
          if n > 2 then sqrt (sq / real (n - 1)) else sq,
          if xs = [] then 0 else sqrt (sum_list (map (\<lambda>v. v ^ 2) xs) / real n)))"
  using foldl_plus_sum_list [of "\<lambda>v. v" 0 xs]
  by (simp add: summary_def Let_def foldl_plus_sum_list)

text \<open>
  Claim C5 at two samples. A ground truth of 100 points of which two have a known distance,
  \<open>0\<close> and \<open>1\<close>: the samples are \<open>[0, 1]\<close>, the mean is \<open>0.5\<close>, and the
  reported standard deviation is \<open>0.5\<close>, the sum of the squared deviations, not \<open>0\<close>.
\<close>

theorem stddev_two_samples:
  "(case computeReconstructionError (\<lambda>p. True)
           (\<lambda>p. if fst p = 0 then Some 0 else if fst p = 1 then Some 1 else None) 2
           ((0, 0, 0) # (1, 0, 0) # replicate 98 (2, 0, 0)) of
      Inl e \<Rightarrow> False
    | Inr r \<Rightarrow> samples r = [0, 1] \<and> mean r = 1 / 2 \<and> stddev r = 1 / 2)"
proof -
  let ?g = "\<lambda>p :: Point. if fst p = 0 then Some (0 :: real) else if fst p = 1 then Some 1 else None"
  let ?gt = "(0, 0, 0) # (1, 0, 0) # replicate 98 (2 :: real, 0 :: real, 0 :: real)"
  have "100 \<le> length ?gt" by simp
  from computeReconstructionError_large [OF this, of "\<lambda>p. True" ?g 2]
  obtain r where
    r: "computeReconstructionError (\<lambda>p. True) ?g 2 ?gt = Inr r"
    and s: "samples r = map (clamp_abs 2) (known_distances (\<lambda>p. True) ?g ?gt)"
    and m: "(mean r, stddev r, rmse r) = summary (samples r)"
    by blast
  have k: "known_distances (\<lambda>p. True) ?g ?gt = [0, 1]"
    by (simp add: known_distances_def map_filter_def)
  have s': "samples r = [0, 1]" using s by (simp add: k clamp_abs_def)
  have "mean r = 1 / 2 \<and> stddev r = 1 / 2"
    using m unfolding s' by (simp add: summary_def Let_def power2_eq_square)
  then show ?thesis using r s' by simp
qed

text \<open>
  Claim C7 at a ground truth of one point inside the bounds: \<open>interval\<close> is
  \<open>1 div 100 = 0\<close> and the progress test takes a remainder by zero.
\<close>

theorem progress_remainder_by_zero:
  "computeReconstructionError (\<lambda>p. True) (\<lambda>p. Some 0) 1 [(0, 0, 0)] = Inl DivisionByZero"
  by (simp add: computeReconstructionError_def error_body_def Let_def)

section \<open>The evaluation run\<close>

lemma fixture_separator: "find_last_of ''maps/run1.panmap'' CHR ''/'' = 4"
  by code_simp

lemma fixture_valid: "isValid fixture_request"
  by (simp add: isValid_def checkParams_def checkParamGT_def fixture_request_def)

lemma fixture_load_map:
  "load_map (fixture_caps ply) fixture_request st =
     Inr (True, st\<lparr>io_log := io_log st @ [LoadMap ''maps/run1.panmap''],
                    loaded_submaps := Some [], target_directory := ''maps'',
                    target_map_name := ''run1''\<rparr>)"
  by (simp add: load_map_def fixture_request_def fixture_caps_def fixture_separator substr_def Let_def)

text \<open>
  Claim C6. A request whose \<open>maximum_distance\<close> is not positive is rejected: the run
  returns failure and the evaluator, its I/O log included, is as it was, so no file was
  loaded and no output was opened.
\<close>

theorem invalid_request_rejected:
  "maximum_distance request \<le> 0 \<Longrightarrow> MapEvaluator_evaluate caps request st = Inr (False, st)"
  by (simp add: MapEvaluator_evaluate_def isValid_def checkParams_def checkParamGT_def)

theorem invalid_request_rejected_witness:
  "maximum_distance (fixture_request\<lparr>maximum_distance := - 1\<rparr>) \<le> 0
   \<and> MapEvaluator_evaluate (fixture_caps (Some [(0, 0, 0)]))
        (fixture_request\<lparr>maximum_distance := - 1\<rparr>) fresh_evaluator = Inr (False, fresh_evaluator)
   \<and> io_log fresh_evaluator = []"
proof -
  have h: "maximum_distance (fixture_request\<lparr>maximum_distance := - 1\<rparr>) \<le> 0" by simp
  from invalid_request_rejected [OF h] h show ?thesis by (simp add: fresh_evaluator_def)
qed

text \<open>
  Claim C10, as amended. With an empty ground-truth path the ground-truth block loads
  nothing and leaves the evaluator as it is; it ends the run exactly when the ground truth
  is needed (\<open>evaluate\<close> or \<open>compute_coloring\<close>) and the evaluator holds no cloud.
  So a valid request aborts there when no cloud is held, and when a cloud is held the run is
  the rest of \<^verbatim>\<open>evaluate\<close> on the unchanged evaluator, which still holds the cloud of
  the earlier call.
\<close>

theorem empty_path_reuses_cloud:
  assumes "ground_truth_pointcloud_file request = []"
  shows "load_ground_truth caps request st =
           (\<not> ((evaluate request \<or> compute_coloring request) \<and> gt_ptcloud st = None), st)
    \<and> (isValid request \<and> (evaluate request \<or> compute_coloring request) \<and> gt_ptcloud st = None
          \<longrightarrow> MapEvaluator_evaluate caps request st = Inr (False, st))
    \<and> (isValid request \<and> gt_ptcloud st \<noteq> None
          \<longrightarrow> MapEvaluator_evaluate caps request st = evaluate_loaded caps request st)"
  using assms
  by (auto simp: load_ground_truth_def MapEvaluator_evaluate_def)

lemma fixture_flags:
  "evaluate fixture_request = False" "compute_coloring fixture_request = True"
  "visualize fixture_request = False"
  by (simp_all add: fixture_request_def)

lemma fixture_coloring:
  "gt_ptcloud st = Some cloud \<Longrightarrow>
   evaluate_loaded (fixture_caps ply) fixture_request st =
     Inr (True, st\<lparr>loaded_submaps := Some [], target_directory := ''maps'',
                    target_map_name := ''run1'',
                    io_log := io_log st @ [LoadMap ''maps/run1.panmap'',
                                SaveMap ''maps/run1_evaluated.panmap'' []]\<rparr>)"
  by (simp add: evaluate_loaded_def fixture_load_map run_evaluate_def run_coloring_def
      run_visualize_def visualizeReconstructionError_def fixture_flags)

lemma fixture_first_call:
  "MapEvaluator_evaluate (fixture_caps (Some [(0, 0, 0)])) fixture_request fresh_evaluator
     = Inr (True, fixture_loaded)"
proof -
  have l: "load_ground_truth (fixture_caps (Some [(0, 0, 0)])) fixture_request fresh_evaluator
      = (True, fresh_evaluator\<lparr>io_log := [LoadPLY ''gt.ply''], gt_ptcloud := Some [(0, 0, 0)]\<rparr>)"
    by (simp add: load_ground_truth_def fixture_request_def fixture_caps_def fresh_evaluator_def)
  show ?thesis
    unfolding MapEvaluator_evaluate_def l
    by (simp add: fixture_valid fixture_coloring [where cloud = "[(0, 0, 0)]"])
       (simp add: fixture_loaded_def fresh_evaluator_def)
qed

theorem empty_path_reuses_cloud_witness:
  "ground_truth_pointcloud_file (fixture_request\<lparr>ground_truth_pointcloud_file := []\<rparr>) = []
   \<and> MapEvaluator_evaluate (fixture_caps (Some [(0, 0, 0)])) fixture_request fresh_evaluator
        = Inr (True, fixture_loaded)
   \<and> load_ground_truth (fixture_caps None)
        (fixture_request\<lparr>ground_truth_pointcloud_file := []\<rparr>) fixture_loaded
        = (True, fixture_loaded)
   \<and> gt_ptcloud fixture_loaded = Some [(0, 0, 0)]
   \<and> MapEvaluator_evaluate (fixture_caps None)
        (fixture_request\<lparr>ground_truth_pointcloud_file := []\<rparr>) fresh_evaluator
        = Inr (False, fresh_evaluator)"
proof -
  let ?rq = "fixture_request\<lparr>ground_truth_pointcloud_file := []\<rparr>"
  have h: "ground_truth_pointcloud_file ?rq = []" by simp
  have v: "isValid ?rq"
    by (simp add: isValid_def checkParams_def checkParamGT_def fixture_request_def)
  have f: "evaluate ?rq \<or> compute_coloring ?rq" by (simp add: fixture_request_def)
  have g: "gt_ptcloud fixture_loaded = Some [(0, 0, 0)]" by (simp add: fixture_loaded_def)
  have n: "gt_ptcloud fresh_evaluator = None" by (simp add: fresh_evaluator_def)
  from empty_path_reuses_cloud [OF h, of "fixture_caps None" fixture_loaded]
  have a: "load_ground_truth (fixture_caps None) ?rq fixture_loaded = (True, fixture_loaded)"
    using g by simp
  from empty_path_reuses_cloud [OF h, of "fixture_caps None" fresh_evaluator]
  have b: "MapEvaluator_evaluate (fixture_caps None) ?rq fresh_evaluator = Inr (False, fresh_evaluator)"
    using v f n by blast
  show ?thesis using h fixture_first_call a g b by blast
qed

text \<open>
  Claim C10 as stated fails in its last part: a first call loads a cloud, a second call
  fails to load its ground-truth file and resets the member, and a third call with an empty
  path then aborts at the ground-truth block although a cloud had been loaded before.
\<close>

theorem empty_path_abort_counterexample:
  "MapEvaluator_evaluate (fixture_caps (Some [(0, 0, 0)])) fixture_request fresh_evaluator
     = Inr (True, fixture_loaded)
   \<and> gt_ptcloud fixture_loaded = Some [(0, 0, 0)]
   \<and> MapEvaluator_evaluate (fixture_caps None) fixture_request fixture_loaded
     = Inr (False, fixture_loaded\<lparr>gt_ptcloud := None,
                                   io_log := io_log fixture_loaded @ [LoadPLY ''gt.ply'']\<rparr>)
   \<and> MapEvaluator_evaluate (fixture_caps (Some [(0, 0, 0)]))
        (fixture_request\<lparr>ground_truth_pointcloud_file := []\<rparr>)
        (fixture_loaded\<lparr>gt_ptcloud := None,
                        io_log := io_log fixture_loaded @ [LoadPLY ''gt.ply'']\<rparr>)
     = Inr (False, fixture_loaded\<lparr>gt_ptcloud := None,
                                   io_log := io_log fixture_loaded @ [LoadPLY ''gt.ply'']\<rparr>)"
proof -
  have 2: "MapEvaluator_evaluate (fixture_caps None) fixture_request fixture_loaded
     = Inr (False, fixture_loaded\<lparr>gt_ptcloud := None,
                                   io_log := io_log fixture_loaded @ [LoadPLY ''gt.ply'']\<rparr>)"
    by (simp add: MapEvaluator_evaluate_def fixture_valid load_ground_truth_def)
       (simp add: fixture_request_def fixture_caps_def)
  have 3: "MapEvaluator_evaluate (fixture_caps (Some [(0, 0, 0)]))
        (fixture_request\<lparr>ground_truth_pointcloud_file := []\<rparr>)
        (fixture_loaded\<lparr>gt_ptcloud := None,
                        io_log := io_log fixture_loaded @ [LoadPLY ''gt.ply'']\<rparr>)
     = Inr (False, fixture_loaded\<lparr>gt_ptcloud := None,
                                   io_log := io_log fixture_loaded @ [LoadPLY ''gt.ply'']\<rparr>)"
    by (simp add: MapEvaluator_evaluate_def load_ground_truth_def)
       (simp add: fixture_request_def isValid_def checkParams_def checkParamGT_def)
  show ?thesis using fixture_first_call 2 3 by (simp add: fixture_loaded_def)
qed

section \<open>The error colouring\<close>

lemma kept_voxel_refl: "kept_voxel t v v"
  by (simp add: kept_voxel_def)

lemma kept_voxel_trans: "kept_voxel t a b \<Longrightarrow> kept_voxel t b c \<Longrightarrow> kept_voxel t a c"
  by (auto simp: kept_voxel_def)

lemma kept_voxels_refl: "list_all2 (kept_voxel t) vs vs"
  by (simp add: list_all2_refl kept_voxel_refl)

lemma kept_voxels_trans:
  "list_all2 (kept_voxel t) a b \<Longrightarrow> list_all2 (kept_voxel t) b c \<Longrightarrow> list_all2 (kept_voxel t) a c"
  by (rule list_all2_trans [of "kept_voxel t" "kept_voxel t" "kept_voxel t"])
     (auto intro: kept_voxel_trans)

lemma kept_refl: "kept sm sm"
  by (simp add: kept_def option.rel_refl kept_voxels_refl)

lemma kept_block:
  "kept a b \<Longrightarrow>
   rel_option (list_all2 (kept_voxel (truncation_distance a))) (block a bj) (block b bj)"
  unfolding kept_def by blast

lemma kept_trans:
  assumes "kept a b" and "kept b c"
  shows "kept a c"
proof -
  have t: "truncation_distance b = truncation_distance a" using assms(1) by (simp add: kept_def)
  have "\<And>bj. rel_option (list_all2 (kept_voxel (truncation_distance a))) (block a bj) (block c bj)"
  proof -
    fix bj
    have 1: "rel_option (list_all2 (kept_voxel (truncation_distance a))) (block a bj) (block b bj)"
      by (rule kept_block [OF assms(1)])
    have 2: "rel_option (list_all2 (kept_voxel (truncation_distance a))) (block b bj) (block c bj)"
      using kept_block [OF assms(2), of bj] t by simp
    show "rel_option (list_all2 (kept_voxel (truncation_distance a))) (block a bj) (block c bj)"
      using 1 2
      by (cases "block a bj"; cases "block b bj"; cases "block c bj")
         (auto intro: kept_voxels_trans)
  qed
  then show ?thesis using assms by (simp add: kept_def)
qed

lemma color_voxel_skipped:
  "\<bar>distance v\<bar> > truncation_distance sm \<Longrightarrow>
   color_voxel caps request points sm bi li v = Inr v"
  by (auto simp: color_voxel_def)

lemma color_voxel_kept:
  assumes "color_voxel caps request points sm bi li v = Inr v'"
  shows "kept_voxel (truncation_distance sm) v v'"
proof (cases "\<bar>distance v\<bar> > truncation_distance sm")
  case True
  then show ?thesis using assms by (simp add: color_voxel_skipped kept_voxel_def)
next
  case False
  have "distance v' = distance v \<and> weight v' = weight v"
    using assms
    by (auto simp: color_voxel_def Let_def split: if_splits sum.splits prod.splits)
  then show ?thesis using False by (simp add: kept_voxel_def)
qed

lemma voxel_body_kept:
  assumes "voxel_body caps request points bi li sm = Inr sm'"
  shows "kept sm sm'"
proof -
  from assms obtain vs v where
    b: "block sm bi = Some vs" and li: "li < length vs"
    and c: "color_voxel caps request points sm bi li (vs ! li) = Inr v"
    and sm': "sm' = sm\<lparr>block := (block sm)(bi \<mapsto> vs[li := v])\<rparr>"
    by (auto simp: voxel_body_def split: option.splits if_splits sum.splits)
  have k: "kept_voxel (truncation_distance sm) (vs ! li) v"
    by (rule color_voxel_kept [OF c])
  have "list_all2 (kept_voxel (truncation_distance sm)) vs (vs[li := v])"
    using k li by (auto simp: list_all2_conv_all_nth nth_list_update kept_voxel_refl)
  then show ?thesis
    using b by (simp add: sm' kept_def option.rel_refl kept_voxels_refl)
qed

lemma foreach_preserves:
  assumes step: "\<And>x s s'. body x s = Inr s' \<Longrightarrow> R s s'"
    and refl: "\<And>s. R s s"
    and trans: "\<And>a b c. R a b \<Longrightarrow> R b c \<Longrightarrow> R a c"
  shows "foreach xs body s = Inr s' \<Longrightarrow> R s s'"
proof (induction xs arbitrary: s)
  case Nil
  then show ?case using refl by simp
next
  case (Cons x xs)
  from Cons.prems obtain s1 where b: "body x s = Inr s1" and r: "foreach xs body s1 = Inr s'"
    by (auto split: sum.splits)
  show ?case using trans [OF step [OF b] Cons.IH [OF r]] .
qed

lemma voxel_loop_kept:
  "foreach js (voxel_body caps request points bi) sm = Inr sm' \<Longrightarrow> kept sm sm'"
  by (rule foreach_preserves [where body = "voxel_body caps request points bi" and R = kept])
     (auto intro: voxel_body_kept kept_refl kept_trans)

lemma block_body_kept:
  assumes "block_body caps request points max_counter bi st = Inr st'"
  shows "kept (fst st) (fst st')"
  using assms
  by (auto simp: block_body_def split: prod.splits option.splits sum.splits
           dest: voxel_loop_kept)

lemma block_loop_kept:
  "foreach bs (block_body caps request points max_counter) st = Inr st' \<Longrightarrow> kept (fst st) (fst st')"
  by (rule foreach_preserves [where body = "block_body caps request points max_counter"
        and R = "\<lambda>a b. kept (fst a) (fst b)"])
     (auto intro: block_body_kept kept_refl kept_trans)

lemma kept_mesh: "kept sm (sm\<lparr>mesh_updates := n\<rparr>)"
  by (simp add: kept_def option.rel_refl kept_voxels_refl)

lemma color_submap_kept:
  assumes "color_submap caps request points max_counter st = Inr st'"
  shows "kept (fst st) (fst st')"
proof -
  from assms obtain sm1 c1 b1 where
    l: "foreach (allocated_blocks (fst st)) (block_body caps request points max_counter) st
          = Inr (sm1, c1, b1)"
    and e: "st' = (sm1\<lparr>mesh_updates := mesh_updates sm1 + 1\<rparr>, c1, b1)"
    by (auto simp: color_submap_def split: sum.splits prod.splits)
  have "kept (fst st) sm1" using block_loop_kept [OF l] by simp
  then show ?thesis using kept_trans [OF _ kept_mesh] by (simp add: e)
qed

lemma color_submaps_kept:
  "color_submaps caps request points max_counter sms pr = Inr (sms', pr') \<Longrightarrow>
   list_all2 kept sms sms'"
proof (induction sms arbitrary: pr sms' pr')
  case Nil
  then show ?case by simp
next
  case (Cons sm sms)
  from Cons.prems obtain sm1 pr1 sms1 where
    a: "color_submap caps request points max_counter (sm, pr) = Inr (sm1, pr1)"
    and b: "color_submaps caps request points max_counter sms pr1 = Inr (sms1, pr')"
    and e: "sms' = sm1 # sms1"
    by (auto split: sum.splits prod.splits)
  have "kept sm sm1" using color_submap_kept [OF a] by simp
  then show ?case using Cons.IH [OF b] by (simp add: e)
qed

lemma visualize_kept:
  "visualizeReconstructionError caps request gt sms = Inr (sms', shown) \<Longrightarrow>
   list_all2 kept sms sms'"
  by (auto simp: visualizeReconstructionError_def Let_def split: sum.splits prod.splits
           dest: color_submaps_kept)

text \<open>
  Claim C9. When the colouring returns, the collection has as many submaps as before, and
  for every submap, every block and every voxel of it whose stored distance exceeds the
  submap's truncation distance in magnitude, the block is still there with as many voxels
  and that voxel is exactly as it was stored.
\<close>

theorem truncated_voxels_untouched:
  assumes "visualizeReconstructionError caps request gt sms = Inr (sms', shown)"
    and "n < length sms"
    and "block (sms ! n) bj = Some vs"
    and "i < length vs"
    and "\<bar>distance (vs ! i)\<bar> > truncation_distance (sms ! n)"
  shows "length sms' = length sms
       \<and> (\<exists>vs'. block (sms' ! n) bj = Some vs' \<and> length vs' = length vs \<and> vs' ! i = vs ! i)"
proof -
  have all: "list_all2 kept sms sms'" by (rule visualize_kept [OF assms(1)])
  then have len: "length sms' = length sms" by (simp add: list_all2_lengthD)
  have k: "kept (sms ! n) (sms' ! n)" using all assms(2) by (simp add: list_all2_nthD)
  then have "rel_option (list_all2 (kept_voxel (truncation_distance (sms ! n))))
               (block (sms ! n) bj) (block (sms' ! n) bj)"
    by (rule kept_block)
  then obtain vs' where
    b: "block (sms' ! n) bj = Some vs'"
    and l: "list_all2 (kept_voxel (truncation_distance (sms ! n))) vs vs'"
    using assms(3) by (cases "block (sms' ! n) bj") auto
  have "kept_voxel (truncation_distance (sms ! n)) (vs ! i) (vs' ! i)"
    using l assms(4) by (simp add: list_all2_nthD)
  then have "vs' ! i = vs ! i" using assms(5) by (simp add: kept_voxel_def)
  then show ?thesis using len b l by (auto simp: list_all2_lengthD)
qed

lemma neighbor_loop_nonneg:
  "foreach js (neighbor_body interp points results vss) acc = Inr acc' \<Longrightarrow>
   0 \<le> fst acc \<Longrightarrow> 0 \<le> fst acc'"
proof (induction js arbitrary: acc)
  case Nil
  then show ?case by simp
next
  case (Cons j js)
  from Cons.prems(1) obtain a1 where
    b: "neighbor_body interp points results vss j acc = Inr a1"
    and r: "foreach js (neighbor_body interp points results vss) a1 = Inr acc'"
    by (auto split: sum.splits)
  have "0 \<le> fst a1"
    using b Cons.prems(2)
    by (auto simp: neighbor_body_def split: if_splits option.splits)
  then show ?case using Cons.IH [OF r] by simp
qed

lemma frac_bounds:
  assumes "0 < m" and "0 \<le> e"
  shows "0 \<le> min (e / real c) m / m \<and> min (e / real c) m / m \<le> 1"
proof -
  have "0 \<le> e / real c" using assms(2) by simp
  then have "0 \<le> min (e / real c) m" using assms(1) by simp
  moreover have "min (e / real c) m \<le> m" by simp
  ultimately show ?thesis using assms(1) by (simp add: divide_le_eq)
qed

text \<open>
  Claim C8. A voxel that reaches the gradient (inside the truncation band, centre inside
  the bounds, at least one neighbour counted) with a positive \<open>maximum_distance\<close>: with
  \<open>fraction = min (total_error / counted_voxels) maximum_distance / maximum_distance\<close>,
  the voxel's colour becomes \<^verbatim>\<open>Color(r, g, 0)\<close> with
  \<open>r = min ((fraction - 0.5) * 2 + 1) 1 * 255\<close> and \<open>g = 190 + 130 * fraction\<close> when
  \<open>fraction \<le> 0.5\<close>, \<open>g = (1 - fraction) * 2 * 255\<close> otherwise; nothing else of the
  voxel changes; and \<open>fraction\<close> lies in \<open>[0, 1]\<close>.
\<close>

theorem error_color_gradient:
  assumes "0 < maximum_distance request"
    and "\<not> (distance voxel > truncation_distance sm \<or> distance voxel < - truncation_distance sm)"
    and "pointIsValid caps (computeCoordinatesFromLinearIndex caps sm block_index linear_index)"
    and "results = take max_number_of_neighbors
           (knnSearch caps points (computeCoordinatesFromLinearIndex caps sm block_index linear_index))"
    and "foreach [0..<length results]
           (neighbor_body (interpolate caps sm) points results (voxel_size sm * voxel_size sm)) (0, 0)
         = Inr (total_error, counted_voxels)"
    and "counted_voxels \<noteq> 0"
    and "fraction = min (total_error / real counted_voxels) (maximum_distance request)
                  / maximum_distance request"
  shows "color_voxel caps request points sm block_index linear_index voxel =
           Inr (voxel\<lparr>color := Color caps (min ((fraction - 1 / 2) * 2 + 1) 1 * 255)
                  (if fraction \<le> 1 / 2 then 190 + 130 * fraction else (1 - fraction) * 2 * 255) 0\<rparr>)
       \<and> 0 \<le> fraction \<and> fraction \<le> 1"
proof -
  have ne: "results \<noteq> []"
  proof
    assume "results = []"
    then have "counted_voxels = 0" using assms(5) by simp
    then show False using assms(6) by simp
  qed
  have nn: "0 \<le> total_error"
    using neighbor_loop_nonneg [OF assms(5)] by simp
  have fb: "0 \<le> fraction \<and> fraction \<le> 1"
    unfolding assms(7) by (rule frac_bounds [OF assms(1) nn])
  have "color_voxel caps request points sm block_index linear_index voxel =
           Inr (voxel\<lparr>color := error_color (Color caps) total_error counted_voxels
                                   (maximum_distance request)\<rparr>)"
    using assms(2,3,5,6) ne unfolding assms(4)
    by (simp add: color_voxel_def Let_def)
  then show ?thesis
    using fb by (simp add: error_color_def Let_def assms(7))
qed

theorem error_color_gradient_witness:
  "0 < maximum_distance fixture_request
   \<and> color_voxel (fixture_caps None) fixture_request [(0, 0, 0)] fixture_submap (0, 0, 0) 0
        \<lparr>distance = 0, weight = 1, color = (0, 0, 0)\<rparr>
      = Inr \<lparr>distance = 0, weight = 1, color = (255 / 2, 445 / 2, 0)\<rparr>
   \<and> color_voxel (fixture_caps None) (fixture_request\<lparr>maximum_distance := 1 / 3\<rparr>)
        [(0, 0, 0)] fixture_submap (0, 0, 0) 0
        \<lparr>distance = 0, weight = 1, color = (0, 0, 0)\<rparr>
      = Inr \<lparr>distance = 0, weight = 1, color = (255, 255 / 2, 0)\<rparr>"
proof -
  let ?caps = "fixture_caps None"
  let ?v = "\<lparr>distance = 0, weight = 1, color = (0 :: real, 0 :: real, 0 :: real)\<rparr>"
  let ?rq = "fixture_request\<lparr>maximum_distance := 1 / 3\<rparr>"
  have h1: "0 < maximum_distance fixture_request" by (simp add: fixture_request_def)
  have h1': "0 < maximum_distance ?rq" by simp
  have h2: "\<not> (distance ?v > truncation_distance fixture_submap
              \<or> distance ?v < - truncation_distance fixture_submap)"
    by (simp add: fixture_submap_def)
  have h3: "pointIsValid ?caps
              (computeCoordinatesFromLinearIndex ?caps fixture_submap (0, 0, 0) 0)"
    by (simp add: fixture_caps_def)
  have h4: "[(0 :: nat, 0 :: real)] = take max_number_of_neighbors
              (knnSearch ?caps [(0, 0, 0)]
                 (computeCoordinatesFromLinearIndex ?caps fixture_submap (0, 0, 0) 0))"
    by (simp add: fixture_caps_def max_number_of_neighbors_def)
  have h5: "foreach [0..<length [(0 :: nat, 0 :: real)]]
              (neighbor_body (interpolate ?caps fixture_submap) [(0, 0, 0)] [(0, 0)]
                 (voxel_size fixture_submap * voxel_size fixture_submap)) (0, 0)
            = Inr (1 / 4, 1)"
    by (simp add: neighbor_body_def fixture_caps_def)
  have h6: "(1 :: nat) \<noteq> 0" by simp
  have h7: "(1 / 4 :: real) = min ((1 / 4) / real 1) (maximum_distance fixture_request)
              / maximum_distance fixture_request"
    by (simp add: fixture_request_def)
  have h7': "(3 / 4 :: real) = min ((1 / 4) / real 1) (maximum_distance ?rq)
              / maximum_distance ?rq"
    by simp
  note a = error_color_gradient [OF h1 h2 h3 h4 h5 h6 h7]
  note b = error_color_gradient [OF h1' h2 h3 h4 h5 h6 h7']
  have a': "color_voxel ?caps fixture_request [(0, 0, 0)] fixture_submap (0, 0, 0) 0 ?v
      = Inr \<lparr>distance = 0, weight = 1, color = (255 / 2, 445 / 2, 0)\<rparr>"
    using a by (simp add: fixture_caps_def)
  have b': "color_voxel ?caps ?rq [(0, 0, 0)] fixture_submap (0, 0, 0) 0 ?v
      = Inr \<lparr>distance = 0, weight = 1, color = (255, 255 / 2, 0)\<rparr>"
    using b by (simp add: fixture_caps_def)
  show ?thesis using h1 a' b' by blast
qed

lemma fixture_visualize:
  "\<exists>sms' shown. visualizeReconstructionError (fixture_caps None) fixture_request [(0, 0, 0)]
       [fixture_submap] = Inr (sms', shown)
     \<and> block (sms' ! 0) (0, 0, 0)
         = Some [\<lparr>distance = 0, weight = 1, color = (255 / 2, 445 / 2, 0)\<rparr>]"
  by (simp add: visualizeReconstructionError_def color_submap_def block_body_def voxel_body_def
     color_voxel_def neighbor_body_def error_color_def max_number_of_neighbors_def
     fixture_caps_def fixture_request_def fixture_submap_def Let_def)

theorem truncated_voxels_untouched_witness:
  "\<exists>sms' shown. visualizeReconstructionError (fixture_caps None) fixture_request [(0, 0, 0)]
       [fixture_submap] = Inr (sms', shown)
     \<and> length sms' = 1
     \<and> block (sms' ! 0) (1, 0, 0) = Some [\<lparr>distance = 5, weight = 1, color = (7, 7, 7)\<rparr>]
     \<and> block (sms' ! 0) (0, 0, 0)
         = Some [\<lparr>distance = 0, weight = 1, color = (255 / 2, 445 / 2, 0)\<rparr>]"
proof -
  let ?v = "\<lparr>distance = 5, weight = 1, color = (7 :: real, 7 :: real, 7 :: real)\<rparr>"
  from fixture_visualize obtain sms' shown where
    r: "visualizeReconstructionError (fixture_caps None) fixture_request [(0, 0, 0)]
          [fixture_submap] = Inr (sms', shown)"
    and c: "block (sms' ! 0) (0, 0, 0)
         = Some [\<lparr>distance = 0, weight = 1, color = (255 / 2, 445 / 2, 0)\<rparr>]"
    by blast
  have h2: "0 < length [fixture_submap]" by simp
  have h3: "block ([fixture_submap] ! 0) (1, 0, 0) = Some [?v]"
    by (simp add: fixture_submap_def)
  have h4: "0 < length [?v]" by simp
  have h5: "\<bar>distance ([?v] ! 0)\<bar> > truncation_distance ([fixture_submap] ! 0)"
    by (simp add: fixture_submap_def)
  from truncated_voxels_untouched [OF r h2 h3 h4 h5]
  obtain vs' where "length sms' = 1" "block (sms' ! 0) (1, 0, 0) = Some vs'"
    "length vs' = 1" "vs' ! 0 = ?v"
    by auto
  moreover from this have "vs' = [?v]"
    by (cases vs') auto
  ultimately show ?thesis using r c by blast
qed

end
